theory Spec2Isabelle
  imports Complex_Main
begin

section \<open>Value screening of an equity universe (Value_Screening.py)\<close>

text \<open>
  The script builds query objects for a remote data service (universe, data items,
  criteria, requests), submits two requests and assembles the answer of the second one
  into a table; a request that fails ends the script. The query objects are modelled as
  datatypes whose constructors are the calls the script makes; the service is a record
  of the data it holds together with an evaluator of query objects. The values the
  service holds and computes are modelled as reals, a missing value (NaN) as \<open>None\<close>;
  the one product the script computes itself, the threshold rank, is rounded as a double.
\<close>

subsection \<open>Data model\<close>

type_synonym ident = string
type_synonym params = "(string \<times> string) list"
type_synonym val = "real option"
type_synonym column = "ident \<Rightarrow> val"
type_synonym series = "(ident \<times> val) list"

datatype error = EmptyUniverse | ServiceError | IndexError | KeyError | TypeError | ValueError

text \<open>
  A data item: \<open>Data f ps\<close> is \<^verbatim>\<open>bq.data.f(**ps)\<close>, \<open>Add\<close> and \<open>Div\<close> are the overloaded
  \<^verbatim>\<open>+\<close> and \<^verbatim>\<open>/\<close> on two items, \<open>DivNum\<close> is \<^verbatim>\<open>/\<close> with a Python number on the right,
  the others are the methods of the same name.
\<close>

datatype item =
    Data string params
  | Add item item
  | Div item item
  | DivNum item real
  | Group item
  | Znav item
  | Rank item
  | Ungroup item
  | ApplyPreferences item params

text \<open>\<open>Le fr t\<close> is \<^verbatim>\<open>fr <= t\<close>, \<open>FuncAnd a b\<close> is \<^verbatim>\<open>bq.func.and_(a, b)\<close>.\<close>

datatype crit = Le item int | FuncAnd crit crit

text \<open>\<open>Members idx\<close> is \<^verbatim>\<open>bq.univ.members(idx)\<close>, \<open>Filter u c\<close> is \<^verbatim>\<open>bq.univ.filter(u, c)\<close>.\<close>

datatype univ = Members string | Filter univ crit

text \<open>
  What a request asks for under a label: a data item, one value per identifier, or
  \<open>IdGroupCount\<close>, which is \<^verbatim>\<open>bq.data.id().group().count()\<close>, one aggregated value.
\<close>

datatype qitem = Col item | IdGroupCount

datatype request = Request univ "(string \<times> qitem) list" params

text \<open>One element of a response: its \<^verbatim>\<open>name\<close> and the series \<^verbatim>\<open>df()[name]\<close>.\<close>

record sir =
  sir_name :: string
  sir_df :: series

record table =
  df_columns :: "string list"
  df_rows :: "(ident \<times> val list) list"

text \<open>
  The service: the members of each index, the value of each field, and the failure, if
  any, with which it meets a request instead of answering it (the service is not
  available, the request is refused).
\<close>

record service =
  univ_members :: "string \<Rightarrow> ident list"
  data_field :: "string \<Rightarrow> params \<Rightarrow> ident \<Rightarrow> val"
  service_error :: "request \<Rightarrow> error option"

subsection \<open>The service's operators\<close>

text \<open>
  Modelled from the spec: the arithmetic of the data service on item values is not part
  of the script. A value computed from a missing operand is missing; so is a quotient
  whose divisor is zero.
\<close>

definition bql_add :: "val \<Rightarrow> val \<Rightarrow> val" where
  "bql_add a b = (case a of None \<Rightarrow> None | Some x \<Rightarrow> (case b of None \<Rightarrow> None | Some y \<Rightarrow> Some (x + y)))"

definition bql_div :: "val \<Rightarrow> val \<Rightarrow> val" where
  "bql_div a b = (case a of None \<Rightarrow> None | Some x \<Rightarrow>
     (case b of None \<Rightarrow> None | Some y \<Rightarrow> if y = 0 then None else Some (x / y)))"

definition bql_div_num :: "val \<Rightarrow> real \<Rightarrow> val" where
  "bql_div_num a c = (case a of None \<Rightarrow> None | Some x \<Rightarrow> if c = 0 then None else Some (x / c))"

fun present :: "val list \<Rightarrow> real list" where
  "present [] = []"
| "present (None # vs) = present vs"
| "present (Some x # vs) = x # present vs"

definition mean :: "real list \<Rightarrow> real" where
  "mean xs = sum_list xs / real (length xs)"

definition stdev :: "real list \<Rightarrow> real" where
  "stdev xs = sqrt (sum_list (map (\<lambda>x. (x - mean xs)\<^sup>2) xs) / real (length xs))"

text \<open>
  Modelled from the spec: \<^verbatim>\<open>znav\<close> of the data service is not part of the script. Spec 4.2:
  standardize values (subtract mean, divide by standard deviation, ignoring missing
  values); an empty universe fails; with zero variance the standardization is degenerate
  and no division takes place, every value is tied. The group is the whole universe
  \<open>us\<close>; the standard deviation is the population one.
\<close>

definition bql_znav :: "ident list \<Rightarrow> column \<Rightarrow> error + column" where
  "bql_znav us x =
     (if us = [] then Inl EmptyUniverse
      else let xs = present (map x us); m = mean xs; s = stdev xs
           in Inr (\<lambda>i. case x i of None \<Rightarrow> None
                        | Some v \<Rightarrow> Some (if s = 0 then 0 else (v - m) / s)))"

text \<open>
  Modelled from the spec: \<^verbatim>\<open>rank\<close> of the data service is not part of the script. Spec 4.2:
  dense ranks by ascending value, rank 1 for the lowest; a missing value has no rank.
\<close>

definition bql_rank :: "ident list \<Rightarrow> column \<Rightarrow> column" where
  "bql_rank us z =
     (\<lambda>i. case z i of None \<Rightarrow> None
          | Some v \<Rightarrow> Some (real (Suc (length (remdups (filter (\<lambda>y. y < v) (present (map z us))))))))"

definition lift2 :: "(val \<Rightarrow> val \<Rightarrow> val) \<Rightarrow> error + column \<Rightarrow> error + column \<Rightarrow> error + column" where
  "lift2 f a b = (case a of Inl e \<Rightarrow> Inl e | Inr x \<Rightarrow>
     (case b of Inl e \<Rightarrow> Inl e | Inr y \<Rightarrow> Inr (\<lambda>i. f (x i) (y i))))"

text \<open>
  The value of an item on the universe \<open>us\<close>. \<^verbatim>\<open>group()\<close> without argument puts the whole
  universe into one group and \<^verbatim>\<open>ungroup()\<close> gives the values back to the identifiers;
  \<^verbatim>\<open>applyPreferences\<close> changes no value.
\<close>

fun eval :: "service \<Rightarrow> ident list \<Rightarrow> item \<Rightarrow> error + column" where
  "eval svc us (Data f ps) = Inr (data_field svc f ps)"
| "eval svc us (Add a b) = lift2 bql_add (eval svc us a) (eval svc us b)"
| "eval svc us (Div a b) = lift2 bql_div (eval svc us a) (eval svc us b)"
| "eval svc us (DivNum a c) =
     (case eval svc us a of Inl e \<Rightarrow> Inl e | Inr x \<Rightarrow> Inr (\<lambda>i. bql_div_num (x i) c))"
| "eval svc us (Group a) = eval svc us a"
| "eval svc us (Znav a) =
     (case eval svc us a of Inl e \<Rightarrow> Inl e | Inr x \<Rightarrow> bql_znav us x)"
| "eval svc us (Rank a) =
     (case eval svc us a of Inl e \<Rightarrow> Inl e | Inr x \<Rightarrow> Inr (bql_rank us x))"
| "eval svc us (Ungroup a) = eval svc us a"
| "eval svc us (ApplyPreferences a ps) = eval svc us a"

text \<open>
  Modelled from the spec: comparison, conjunction and the universe filter of the data
  service are not part of the script. Spec 4.3: an identifier passes iff its rank is at
  most the threshold, criteria are combined by AND, and the filtered universe is the
  subset of the universe whose members pass. A missing rank does not pass.
\<close>

definition bql_le :: "val \<Rightarrow> int \<Rightarrow> bool" where
  "bql_le a t = (case a of None \<Rightarrow> False | Some r \<Rightarrow> r \<le> real_of_int t)"

fun eval_crit :: "service \<Rightarrow> ident list \<Rightarrow> crit \<Rightarrow> error + (ident \<Rightarrow> bool)" where
  "eval_crit svc us (Le a t) =
     (case eval svc us a of Inl e \<Rightarrow> Inl e | Inr x \<Rightarrow> Inr (\<lambda>i. bql_le (x i) t))"
| "eval_crit svc us (FuncAnd c d) =
     (case eval_crit svc us c of Inl e \<Rightarrow> Inl e | Inr p \<Rightarrow>
        (case eval_crit svc us d of Inl e \<Rightarrow> Inl e | Inr q \<Rightarrow> Inr (\<lambda>i. p i \<and> q i)))"

fun eval_univ :: "service \<Rightarrow> univ \<Rightarrow> error + ident list" where
  "eval_univ svc (Members idx) = Inr (univ_members svc idx)"
| "eval_univ svc (Filter u c) =
     (case eval_univ svc u of Inl e \<Rightarrow> Inl e | Inr us \<Rightarrow>
        (case eval_crit svc us c of Inl e \<Rightarrow> Inl e | Inr p \<Rightarrow> Inr (filter p us)))"

text \<open>
  Modelled from the spec: the answer of the service to a request is not part of the
  script. Spec 6: the service receives a request (universe, named items) and returns, per
  item and in the order of the items, a column of values aligned to the identifiers of
  the universe. The count of the identifiers is one aggregated row, which belongs to no
  identifier.
\<close>

definition eval_rows :: "service \<Rightarrow> ident list \<Rightarrow> qitem \<Rightarrow> error + series" where
  "eval_rows svc us q =
     (case q of
        Col it \<Rightarrow> (case eval svc us it of Inl e \<Rightarrow> Inl e | Inr x \<Rightarrow> Inr (map (\<lambda>i. (i, x i)) us))
      | IdGroupCount \<Rightarrow> Inr [([], Some (real (length us)))])"

fun execute_items :: "service \<Rightarrow> ident list \<Rightarrow> (string \<times> qitem) list \<Rightarrow> error + sir list" where
  "execute_items svc us [] = Inr []"
| "execute_items svc us ((n, q) # qs) =
     (case eval_rows svc us q of Inl e \<Rightarrow> Inl e | Inr s \<Rightarrow>
        (case execute_items svc us qs of Inl e \<Rightarrow> Inl e
         | Inr rs \<Rightarrow> Inr (\<lparr>sir_name = n, sir_df = s\<rparr> # rs)))"

fun service_answer :: "service \<Rightarrow> request \<Rightarrow> error + sir list" where
  "service_answer svc (Request u items ps) =
     (case eval_univ svc u of Inl e \<Rightarrow> Inl e | Inr us \<Rightarrow> execute_items svc us items)"

text \<open>
  Modelled from the spec: the execution of a request is not part of the script. Spec 7:
  any failure of the call to the service propagates as an unhandled failure; otherwise
  the call returns the answer of the service.
\<close>

definition execute :: "service \<Rightarrow> request \<Rightarrow> error + sir list" where
  "execute svc rq = (case service_error svc rq of Some e \<Rightarrow> Inl e | None \<Rightarrow> service_answer svc rq)"

text \<open>
  \<^verbatim>\<open>bq.execute\<close> is the one effect of the script: the request goes out to the service,
  whether the call fails or not. The state is the list of the requests submitted so far.
\<close>

definition bq_execute :: "service \<Rightarrow> request \<Rightarrow> request list \<Rightarrow> (error + sir list) \<times> request list" where
  "bq_execute svc rq sent = (execute svc rq, sent @ [rq])"

subsection \<open>The script\<close>

definition bq_univ :: univ where
  "bq_univ = Members ''UKX Index''"

definition bq_px_to_book :: item where
  "bq_px_to_book = Div (Data ''px_last'' [(''fill'', ''PREV''), (''currency'', ''GBP'')])
                       (Data ''book_val_per_sh'' [(''fa_period_type'', ''LTM''), (''currency'', ''GBP'')])"

definition bq_avg_roe_2y :: item where
  "bq_avg_roe_2y = DivNum (Add (Data ''return_com_eqy'' [(''fa_period_offset'', ''-1'')])
                               (Data ''return_com_eqy'' [(''fa_period_offset'', ''-2'')])) 2"

definition cash_from_oper :: item where
  "cash_from_oper = Data ''cf_cash_from_oper'' [(''fa_period_type'', ''LTM'')]"

definition tot_asset :: item where
  "tot_asset = Data ''bs_tot_asset'' [(''fa_period_type'', ''LTM'')]"

definition bq_cash_per_asset :: item where
  "bq_cash_per_asset = Div cash_from_oper tot_asset"

definition id_count :: qitem where
  "id_count = IdGroupCount"

definition count_request :: request where
  "count_request = Request bq_univ [(''COUNT'', id_count)] []"

text \<open>\<^verbatim>\<open>bq_res[0].df()['COUNT']\<close>\<close>

definition num_of_members :: "sir list \<Rightarrow> error + series" where
  "num_of_members bq_res =
     (case bq_res of [] \<Rightarrow> Inl IndexError
      | r # _ \<Rightarrow> if sir_name r = ''COUNT'' then Inr (sir_df r) else Inl KeyError)"

text \<open>
  Python floats are doubles. A double is modelled as the real number it denotes, with
  an unbounded exponent (no overflow to infinity, no subnormal numbers: a percentage
  times a count reaches neither). \<open>round_double q\<close> is the double nearest to \<open>q\<close>, ties
  to the even significand: \<open>rnd\<close> scales a positive \<open>q\<close> by powers of 2 into the range of
  the 53-bit significands, rounds there to an integer and scales back.
\<close>

definition round_half_even :: "real \<Rightarrow> int" where
  "round_half_even x =
     (let f = \<lfloor>x\<rfloor>; r = x - of_int f
      in if r < 1 / 2 then f else if 1 / 2 < r then f + 1 else if even f then f else f + 1)"

function rnd :: "real \<Rightarrow> real" where
  "rnd a = (if a \<le> 0 then 0
            else if a < 2 ^ 52 then rnd (2 * a) / 2
            else if 2 ^ 53 \<le> a then 2 * rnd (a / 2)
            else of_int (round_half_even a))"
  by pat_completeness auto
termination
proof (relation "measure (\<lambda>a. nat \<bar>\<lfloor>log 2 a\<rfloor> - 52\<bar>)")
  show "wf (measure (\<lambda>a. nat \<bar>\<lfloor>log 2 a\<rfloor> - 52\<bar>))" by simp
next
  fix a :: real
  assume "\<not> a \<le> 0" and lt: "a < 2 ^ 52"
  then have pos: "0 < a" by simp
  have "log 2 (2 * a) = 1 + log 2 a"
    using pos by (simp add: log_mult)
  then have f: "\<lfloor>log 2 (2 * a)\<rfloor> = 1 + \<lfloor>log 2 a\<rfloor>" by simp
  have "log 2 a < 52"
    using pos lt by (simp add: log_less_iff)
  then have "\<lfloor>log 2 a\<rfloor> < 52" by (simp add: floor_less_iff)
  with f show "(2 * a, a) \<in> measure (\<lambda>a. nat \<bar>\<lfloor>log 2 a\<rfloor> - 52\<bar>)"
    by simp
next
  fix a :: real
  assume "\<not> a \<le> 0" and ge: "2 ^ 53 \<le> a"
  then have pos: "0 < a" by simp
  have "log 2 (a / 2) = log 2 a - 1"
    using pos by (simp add: log_divide)
  then have f: "\<lfloor>log 2 (a / 2)\<rfloor> = \<lfloor>log 2 a\<rfloor> - 1" by simp
  have "53 \<le> log 2 a"
    using pos ge by (simp add: le_log_iff)
  then have "53 \<le> \<lfloor>log 2 a\<rfloor>" by (simp add: le_floor_iff)
  with f show "(a / 2, a) \<in> measure (\<lambda>a. nat \<bar>\<lfloor>log 2 a\<rfloor> - 52\<bar>)"
    by simp
qed

declare rnd.simps [simp del]

definition round_double :: "real \<Rightarrow> real" where
  "round_double q = (if q < 0 then - rnd (- q) else rnd q)"

text \<open>The literal \<^verbatim>\<open>0.80\<close> denotes the double nearest to 80/100.\<close>

definition threshold_percentage :: real where
  "threshold_percentage = round_double (80 / 100)"

text \<open>Python's \<^verbatim>\<open>int\<close> of a float truncates toward zero.\<close>

definition py_int :: "real \<Rightarrow> int" where
  "py_int x = (if 0 \<le> x then \<lfloor>x\<rfloor> else \<lceil>x\<rceil>)"

text \<open>
  \<^verbatim>\<open>int(p * num_of_members)\<close> for a double \<open>p\<close> and a series of doubles (a count below
  \<open>2 ^ 53\<close> is one): the product is a series of doubles, each the exact product rounded;
  \<^verbatim>\<open>int\<close> of a series with one element converts that element, fails with ValueError
  when it is NaN, and fails with TypeError on a series of any other length.
\<close>

definition threshold_rank :: "real \<Rightarrow> series \<Rightarrow> error + int" where
  "threshold_rank p num =
     (case num of
        [(k, Some x)] \<Rightarrow> Inr (py_int (round_double (p * x)))
      | [(k, None)] \<Rightarrow> Inl ValueError
      | _ \<Rightarrow> Inl TypeError)"

definition rank_func :: "item \<Rightarrow> item" where
  "rank_func factor = ApplyPreferences (Ungroup (Rank (Znav (Group factor)))) [(''Currencycheck'', ''ignore'')]"

definition factor_ranks :: "item list" where
  "factor_ranks = [rank_func bq_avg_roe_2y, rank_func bq_px_to_book, rank_func bq_cash_per_asset]"

definition criteria :: "item list \<Rightarrow> int \<Rightarrow> crit list" where
  "criteria frs t = map (\<lambda>factor_rank. Le factor_rank t) frs"

text \<open>\<^verbatim>\<open>for i in range(1, len(criteria)): criteria_final = bq.func.and_(criteria_final, criteria[i])\<close>\<close>

function and_loop :: "crit list \<Rightarrow> nat \<Rightarrow> crit \<Rightarrow> crit" where
  "and_loop cs i acc = (if i < length cs then and_loop cs (Suc i) (FuncAnd acc (cs ! i)) else acc)"
  by pat_completeness auto
termination
  by (relation "measure (\<lambda>(cs, i, acc). length cs - i)") auto

declare and_loop.simps [simp del]

definition criteria_final :: "crit list \<Rightarrow> error + crit" where
  "criteria_final cs = (case cs of [] \<Rightarrow> Inl IndexError | c # _ \<Rightarrow> Inr (and_loop cs 1 c))"

definition filtered_univ :: "crit \<Rightarrow> univ" where
  "filtered_univ cf = Filter bq_univ cf"

definition items_ordered_dict :: "(string \<times> qitem) list" where
  "items_ordered_dict = [(''AVE_ROE_2Y'', Col bq_avg_roe_2y),
                         (''PX_BOOK_VALUE'', Col bq_px_to_book),
                         (''CASH_PER_ASSET'', Col bq_cash_per_asset)]"

definition bq_request :: "crit \<Rightarrow> request" where
  "bq_request cf = Request (filtered_univ cf) items_ordered_dict [(''mode'', ''cached'')]"

text \<open>
  \<^verbatim>\<open>pd.concat(objs, axis=1)\<close> of named series: no series is a ValueError; series with
  the same index are put side by side, row by row; otherwise an index with a repeated
  label is a ValueError, and else the rows are the union of the indexes, each label where
  it first appears, and a label that a series lacks gives a missing cell.
\<close>

definition pd_concat :: "sir list \<Rightarrow> error + table" where
  "pd_concat objs =
     (if objs = [] then Inl ValueError
      else let idxs = map (\<lambda>r. map fst (sir_df r)) objs; ix = hd idxs in
        if list_all (\<lambda>jx. jx = ix) idxs
        then Inr \<lparr>df_columns = map sir_name objs,
                  df_rows = map (\<lambda>j. (ix ! j, map (\<lambda>r. snd (sir_df r ! j)) objs)) [0..<length ix]\<rparr>
        else if list_ex (\<lambda>jx. \<not> distinct jx) idxs then Inl ValueError
        else Inr \<lparr>df_columns = map sir_name objs,
                  df_rows = map (\<lambda>k. (k, map (\<lambda>r. case map_of (sir_df r) k of None \<Rightarrow> None | Some v \<Rightarrow> v) objs))
                                (rev (remdups (rev (concat idxs))))\<rparr>)"

text \<open>
  The whole script with the percentage and the factor ranks as parameters: the count
  request, the threshold rank, the criteria, the screening request and the table.
  The second component is the list of requests submitted.
\<close>

definition screening :: "real \<Rightarrow> item list \<Rightarrow> service \<Rightarrow> request list \<Rightarrow> (error + table) \<times> request list" where
  "screening p frs svc sent =
     (case bq_execute svc count_request sent of
        (Inl e, sent1) \<Rightarrow> (Inl e, sent1)
      | (Inr bq_res, sent1) \<Rightarrow>
     (case num_of_members bq_res of Inl e \<Rightarrow> (Inl e, sent1) | Inr num \<Rightarrow>
     (case threshold_rank p num of Inl e \<Rightarrow> (Inl e, sent1) | Inr t \<Rightarrow>
     (case criteria_final (criteria frs t) of Inl e \<Rightarrow> (Inl e, sent1) | Inr cf \<Rightarrow>
     (case bq_execute svc (bq_request cf) sent1 of
        (Inl e, sent2) \<Rightarrow> (Inl e, sent2)
      | (Inr bq_res2, sent2) \<Rightarrow> (pd_concat bq_res2, sent2))))))"

definition run :: "service \<Rightarrow> request list \<Rightarrow> (error + table) \<times> request list" where
  "run = screening threshold_percentage factor_ranks"

text \<open>
  The script against any \<^verbatim>\<open>bq.execute\<close>, a function from requests to failures or
  responses that need be neither the answer of a service nor well formed: the same
  statements in the same order, with \<open>submit\<close> for the call.
\<close>

definition submit :: "(request \<Rightarrow> error + sir list) \<Rightarrow> request \<Rightarrow> request list \<Rightarrow> (error + sir list) \<times> request list" where
  "submit bq rq sent = (bq rq, sent @ [rq])"

definition screening_on :: "(request \<Rightarrow> error + sir list) \<Rightarrow> real \<Rightarrow> item list \<Rightarrow> request list \<Rightarrow> (error + table) \<times> request list" where
  "screening_on bq p frs sent =
     (case submit bq count_request sent of
        (Inl e, sent1) \<Rightarrow> (Inl e, sent1)
      | (Inr bq_res, sent1) \<Rightarrow>
     (case num_of_members bq_res of Inl e \<Rightarrow> (Inl e, sent1) | Inr num \<Rightarrow>
     (case threshold_rank p num of Inl e \<Rightarrow> (Inl e, sent1) | Inr t \<Rightarrow>
     (case criteria_final (criteria frs t) of Inl e \<Rightarrow> (Inl e, sent1) | Inr cf \<Rightarrow>
     (case submit bq (bq_request cf) sent1 of
        (Inl e, sent2) \<Rightarrow> (Inl e, sent2)
      | (Inr bq_res2, sent2) \<Rightarrow> (pd_concat bq_res2, sent2))))))"

definition run_on :: "(request \<Rightarrow> error + sir list) \<Rightarrow> request list \<Rightarrow> (error + table) \<times> request list" where
  "run_on bq = screening_on bq threshold_percentage factor_ranks"

text \<open>
  The filtered universe of the data model: the identifiers that the universe of the
  screening request denotes, for the percentage \<open>p\<close> and the factor ranks \<open>frs\<close>, with
  the count that the service answers.
\<close>

definition screened :: "real \<Rightarrow> item list \<Rightarrow> service \<Rightarrow> error + ident list" where
  "screened p frs svc =
     (case service_answer svc count_request of Inl e \<Rightarrow> Inl e | Inr bq_res \<Rightarrow>
     (case num_of_members bq_res of Inl e \<Rightarrow> Inl e | Inr num \<Rightarrow>
     (case threshold_rank p num of Inl e \<Rightarrow> Inl e | Inr t \<Rightarrow>
     (case criteria_final (criteria frs t) of Inl e \<Rightarrow> Inl e | Inr cf \<Rightarrow>
        eval_univ svc (filtered_univ cf)))))"

subsection \<open>A worked example\<close>

text \<open>
  A universe of five identifiers. The three factor values are, per identifier,
  average ROE 1, 3, 4, 5, 7, price to book 3, 1, 4, 7, 5 and cash per asset 5, 4, 3, 1, 7.
\<close>

definition example_members :: "ident list" where
  "example_members = [''A'', ''B'', ''C'', ''D'', ''E'']"

definition example_data :: "string \<Rightarrow> params \<Rightarrow> ident \<Rightarrow> val" where
  "example_data f ps =
     (if f = ''return_com_eqy'' \<and> ps = [(''fa_period_offset'', ''-1'')]
        then map_of [(''A'', 0), (''B'', 2), (''C'', 5), (''D'', 4), (''E'', 8)]
      else if f = ''return_com_eqy'' \<and> ps = [(''fa_period_offset'', ''-2'')]
        then map_of [(''A'', 2), (''B'', 4), (''C'', 3), (''D'', 6), (''E'', 6)]
      else if f = ''px_last''
        then map_of [(''A'', 6), (''B'', 2), (''C'', 8), (''D'', 14), (''E'', 10)]
      else if f = ''book_val_per_sh''
        then map_of [(''A'', 2), (''B'', 2), (''C'', 2), (''D'', 2), (''E'', 2)]
      else if f = ''cf_cash_from_oper''
        then map_of [(''A'', 50), (''B'', 40), (''C'', 30), (''D'', 10), (''E'', 70)]
      else if f = ''bs_tot_asset''
        then map_of [(''A'', 10), (''B'', 10), (''C'', 10), (''D'', 10), (''E'', 10)]
      else (\<lambda>i. None))"

definition example :: service where
  "example = \<lparr>univ_members = (\<lambda>idx. if idx = ''UKX Index'' then example_members else []),
              data_field = example_data,
              service_error = (\<lambda>rq. None)\<rparr>"

text \<open>The ranks of the first factor in the example, as natural numbers.\<close>

definition example_rho :: "ident \<Rightarrow> nat" where
  "example_rho i = (if i = ''A'' then 1 else if i = ''B'' then 2 else if i = ''C'' then 3
                     else if i = ''D'' then 4 else 5)"

text \<open>
  A second service with the same universe and the same factor values, from other raw data:
  prices and book values are halved, and another index has a member.
\<close>

definition example_alt :: service where
  "example_alt = \<lparr>univ_members = (\<lambda>idx. if idx = ''UKX Index'' then example_members else [''Z'']),
     data_field = (\<lambda>f ps. if f = ''px_last'' then map_of [(''A'', 3), (''B'', 1), (''C'', 4), (''D'', 7), (''E'', 5), (''Z'', 9)]
                           else if f = ''book_val_per_sh'' then (\<lambda>i. Some 1)
                           else example_data f ps),
     service_error = (\<lambda>rq. None)\<rparr>"

text \<open>A service in which every field has the value 1 for every identifier.\<close>

definition example_flat :: service where
  "example_flat = \<lparr>univ_members = (\<lambda>idx. if idx = ''UKX Index'' then example_members else []),
                   data_field = (\<lambda>f ps i. Some 1),
                   service_error = (\<lambda>rq. None)\<rparr>"

text \<open>The first service when it is not available: every request fails.\<close>

definition example_down :: service where
  "example_down = example\<lparr>service_error := (\<lambda>rq. Some ServiceError)\<rparr>"

text \<open>The first service when it answers the count request only.\<close>

definition example_late :: service where
  "example_late = example\<lparr>service_error := (\<lambda>rq. if rq = count_request then None else Some ServiceError)\<rparr>"


section \<open>Auxiliary facts\<close>

subsection \<open>Rounding to a double\<close>

text \<open>
  \<open>rnd\<close> of a positive number is the nearest multiple of the power of 2 that scales it
  into the 53-bit range; rounding is monotone and exact on the integers below \<open>2 ^ 53\<close>.
  For a universe of fewer than \<open>2 ^ 50\<close> members the rounding of \<^verbatim>\<open>0.80 * num_of_members\<close>
  does not move the threshold rank: it is \<open>4 * n div 5\<close>.
\<close>

lemma py_int_nonneg: "0 \<le> x \<Longrightarrow> py_int x = \<lfloor>x\<rfloor>"
  by (simp add: py_int_def)

lemma py_int_mono: "x \<le> y \<Longrightarrow> py_int x \<le> py_int y"
  unfolding py_int_def
  by (smt (verit) ceiling_mono floor_mono floor_le_ceiling ceiling_le_zero zero_le_floor)

lemma round_half_even_near: "\<bar>real_of_int (round_half_even x) - x\<bar> \<le> 1 / 2"
proof -
  have "real_of_int \<lfloor>x\<rfloor> \<le> x" "x < real_of_int \<lfloor>x\<rfloor> + 1" by linarith+
  then show ?thesis
    by (auto simp: round_half_even_def Let_def)
qed

lemma round_half_even_of_int: "round_half_even (real_of_int k) = k"
  by (simp add: round_half_even_def)

lemma round_half_even_bounds: "\<lfloor>x\<rfloor> \<le> round_half_even x" "round_half_even x \<le> \<lfloor>x\<rfloor> + 1"
  by (simp_all add: round_half_even_def Let_def)

lemma round_half_even_mono:
  assumes "x \<le> y"
  shows "round_half_even x \<le> round_half_even y"
proof (cases "\<lfloor>x\<rfloor> = \<lfloor>y\<rfloor>")
  case True
  with assms have "x - real_of_int \<lfloor>x\<rfloor> \<le> y - real_of_int \<lfloor>y\<rfloor>" by simp
  with True show ?thesis
    by (auto simp: round_half_even_def Let_def)
next
  case False
  with assms have "\<lfloor>x\<rfloor> < \<lfloor>y\<rfloor>" using floor_mono [of x y] by linarith
  then have "\<lfloor>x\<rfloor> + 1 \<le> \<lfloor>y\<rfloor>" by simp
  with round_half_even_bounds(2) [of x] round_half_even_bounds(1) [of y] show ?thesis
    by linarith
qed

lemma round_half_even_ge: "real_of_int k \<le> x \<Longrightarrow> k \<le> round_half_even x"
  using round_half_even_mono [of "real_of_int k" x] by (simp add: round_half_even_of_int)

lemma round_half_even_le: "x \<le> real_of_int k \<Longrightarrow> round_half_even x \<le> k"
  using round_half_even_mono [of x "real_of_int k"] by (simp add: round_half_even_of_int)

lemma rnd_char:
  "0 < a \<Longrightarrow> \<exists>k::int. 2 ^ 52 \<le> a * power_int 2 k \<and> a * power_int 2 k < 2 ^ 53 \<and>
     rnd a = real_of_int (round_half_even (a * power_int 2 k)) / power_int 2 k"
proof (induction a rule: rnd.induct)
  case (1 a)
  consider "a < 2 ^ 52" | "2 ^ 53 \<le> a" | "2 ^ 52 \<le> a" "a < 2 ^ 53" by linarith
  then show ?case
  proof cases
    case 1
    with "1.prems" "1.IH"(1) obtain k :: int where
      k: "2 ^ 52 \<le> 2 * a * power_int 2 k" "2 * a * power_int 2 k < 2 ^ 53"
         "rnd (2 * a) = real_of_int (round_half_even (2 * a * power_int 2 k)) / power_int 2 k"
      by force
    have p: "power_int (2::real) (k + 1) = power_int 2 k * 2"
      by (rule power_int_add_1) simp
    have e: "a * power_int 2 (k + 1) = 2 * a * power_int 2 k"
      by (simp add: p)
    have "rnd a = rnd (2 * a) / 2"
      using 1 "1.prems" by (simp add: rnd.simps [of a])
    also have "\<dots> = real_of_int (round_half_even (a * power_int 2 (k + 1))) / power_int 2 (k + 1)"
      unfolding k(3) e unfolding p by simp
    finally have r: "rnd a = real_of_int (round_half_even (a * power_int 2 (k + 1))) / power_int 2 (k + 1)" .
    have "2 ^ 52 \<le> a * power_int 2 (k + 1)" "a * power_int 2 (k + 1) < 2 ^ 53"
      using k(1,2) by (simp_all only: e)
    with r show ?thesis by blast
  next
    case 2
    with "1.prems" "1.IH"(2) obtain k :: int where
      k: "2 ^ 52 \<le> a / 2 * power_int 2 k" "a / 2 * power_int 2 k < 2 ^ 53"
         "rnd (a / 2) = real_of_int (round_half_even (a / 2 * power_int 2 k)) / power_int 2 k"
      by force
    have p: "power_int (2::real) (k - 1) = power_int 2 k / 2"
      using power_int_diff [of "2::real" k 1] by simp
    have e: "a * power_int 2 (k - 1) = a / 2 * power_int 2 k"
      by (simp add: p)
    have "rnd a = 2 * rnd (a / 2)"
      using 2 "1.prems" by (simp add: rnd.simps [of a])
    also have "\<dots> = real_of_int (round_half_even (a * power_int 2 (k - 1))) / power_int 2 (k - 1)"
      unfolding k(3) e unfolding p by simp
    finally have r: "rnd a = real_of_int (round_half_even (a * power_int 2 (k - 1))) / power_int 2 (k - 1)" .
    have "2 ^ 52 \<le> a * power_int 2 (k - 1)" "a * power_int 2 (k - 1) < 2 ^ 53"
      using k(1,2) by (simp_all only: e)
    with r show ?thesis by blast
  next
    case 3
    then have "rnd a = real_of_int (round_half_even a)"
      using "1.prems" by (simp add: rnd.simps [of a])
    with 3 show ?thesis by (intro exI [of _ 0]) simp
  qed
qed

lemma rnd_zero: "a \<le> 0 \<Longrightarrow> rnd a = 0"
  by (simp add: rnd.simps [of a])

lemma rnd_nonneg: "0 \<le> rnd a"
proof (cases "0 < a")
  case True
  from rnd_char [OF True] obtain k :: int where
    k: "2 ^ 52 \<le> a * power_int 2 k"
       "rnd a = real_of_int (round_half_even (a * power_int 2 k)) / power_int 2 k" by blast
  have "real_of_int 0 \<le> a * power_int 2 k" using k(1) by simp
  then have "0 \<le> round_half_even (a * power_int 2 k)" by (rule round_half_even_ge)
  then show ?thesis by (simp add: k(2))
next
  case False
  then show ?thesis by (simp add: rnd_zero)
qed

lemma rnd_mono:
  assumes pos: "0 < a" and le: "a \<le> b"
  shows "rnd a \<le> rnd b"
proof -
  from pos le have posb: "0 < b" by simp
  from rnd_char [OF pos] obtain ka :: int where
    a: "2 ^ 52 \<le> a * power_int 2 ka" "a * power_int 2 ka < 2 ^ 53"
       "rnd a = real_of_int (round_half_even (a * power_int 2 ka)) / power_int 2 ka" by blast
  from rnd_char [OF posb] obtain kb :: int where
    b: "2 ^ 52 \<le> b * power_int 2 kb" "b * power_int 2 kb < 2 ^ 53"
       "rnd b = real_of_int (round_half_even (b * power_int 2 kb)) / power_int 2 kb" by blast
  have pa: "0 < power_int (2::real) ka" and pb: "0 < power_int (2::real) kb" by simp_all
  have kle: "kb \<le> ka"
  proof (rule ccontr)
    assume "\<not> kb \<le> ka"
    then have "ka + 1 \<le> kb" by simp
    then have "power_int (2::real) (ka + 1) \<le> power_int 2 kb"
      by (intro power_int_increasing) simp_all
    moreover have "power_int (2::real) (ka + 1) = power_int 2 ka * 2"
      by (rule power_int_add_1) simp
    ultimately have "2 * power_int (2::real) ka \<le> power_int 2 kb" by simp
    then have "a * (2 * power_int 2 ka) \<le> b * power_int 2 kb"
      using pos le by (intro mult_mono) simp_all
    with a(1) b(2) show False by simp
  qed
  show ?thesis
  proof (cases "kb = ka")
    case True
    have "a * power_int 2 ka \<le> b * power_int 2 ka"
      using le by (simp add: mult_right_mono)
    then have "round_half_even (a * power_int 2 ka) \<le> round_half_even (b * power_int 2 ka)"
      by (rule round_half_even_mono)
    then show ?thesis using pa by (simp add: a(3) b(3) True divide_right_mono)
  next
    case False
    with kle have "kb + 1 \<le> ka" by simp
    then have "power_int (2::real) (kb + 1) \<le> power_int 2 ka"
      by (intro power_int_increasing) simp_all
    moreover have "power_int (2::real) (kb + 1) = power_int 2 kb * 2"
      by (rule power_int_add_1) simp
    ultimately have pw: "2 * power_int (2::real) kb \<le> power_int 2 ka" by simp
    have "a * power_int 2 ka \<le> real_of_int (2 ^ 53)" using a(2) by simp
    then have "round_half_even (a * power_int 2 ka) \<le> 2 ^ 53" by (rule round_half_even_le)
    then have "real_of_int (round_half_even (a * power_int 2 ka)) \<le> 2 ^ 53"
      by (metis of_int_le_iff of_int_numeral of_int_power)
    then have "rnd a \<le> 2 ^ 53 / power_int 2 ka"
      using pa by (simp add: a(3) divide_right_mono)
    also have "\<dots> \<le> 2 ^ 53 / (2 * power_int 2 kb)"
      using pw pb by (intro divide_left_mono) simp_all
    also have "\<dots> = 2 ^ 52 / power_int 2 kb" by simp
    also have "\<dots> \<le> rnd b"
    proof -
      have "real_of_int (2 ^ 52) \<le> b * power_int 2 kb" using b(1) by simp
      then have "2 ^ 52 \<le> round_half_even (b * power_int 2 kb)" by (rule round_half_even_ge)
      then have "2 ^ 52 \<le> real_of_int (round_half_even (b * power_int 2 kb))"
        by (metis of_int_le_iff of_int_numeral of_int_power)
      then show ?thesis using pb by (simp add: b(3) divide_right_mono)
    qed
    finally show ?thesis .
  qed
qed

lemma round_double_mono:
  assumes "a \<le> b"
  shows "round_double a \<le> round_double b"
proof -
  consider "b < 0" | "a < 0" "0 \<le> b" | "a = 0" | "0 < a" using assms by linarith
  then show ?thesis
  proof cases
    case 1
    with assms have "0 < - b" "- b \<le> - a" "a < 0" by simp_all
    then show ?thesis using rnd_mono [of "- b" "- a"] by (simp add: round_double_def)
  next
    case 2
    then show ?thesis using rnd_nonneg [of "- a"] rnd_nonneg [of b] by (simp add: round_double_def)
  next
    case 3
    then show ?thesis using rnd_nonneg [of b] assms by (simp add: round_double_def rnd_zero)
  next
    case 4
    then show ?thesis using rnd_mono [OF 4 assms] assms by (simp add: round_double_def)
  qed
qed

lemma rnd_at:
  fixes k :: int
  assumes lo: "2 ^ 52 \<le> a * power_int 2 k" and hi: "a * power_int 2 k < 2 ^ 53"
  shows "rnd a = real_of_int (round_half_even (a * power_int 2 k)) / power_int 2 k"
proof -
  have pk: "0 < power_int (2::real) k" by simp
  have pos: "0 < a"
  proof (rule ccontr)
    assume "\<not> 0 < a"
    then have "a * power_int 2 k \<le> 0" using pk by (simp add: mult_nonpos_nonneg)
    with lo show False by simp
  qed
  from rnd_char [OF pos] obtain k' :: int where
    k': "2 ^ 52 \<le> a * power_int 2 k'" "a * power_int 2 k' < 2 ^ 53"
        "rnd a = real_of_int (round_half_even (a * power_int 2 k')) / power_int 2 k'" by blast
  have step: "False" if "i + 1 \<le> j" "2 ^ 52 \<le> a * power_int 2 i" "a * power_int 2 j < 2 ^ 53" for i j :: int
  proof -
    have "power_int (2::real) (i + 1) \<le> power_int 2 j"
      using that(1) by (intro power_int_increasing) simp_all
    moreover have "power_int (2::real) (i + 1) = power_int 2 i * 2"
      by (rule power_int_add_1) simp
    ultimately have "2 * power_int (2::real) i \<le> power_int 2 j" by simp
    then have "a * (2 * power_int 2 i) \<le> a * power_int 2 j"
      using pos by (intro mult_left_mono) simp_all
    with that(2,3) show False by simp
  qed
  have "k' = k"
  proof (rule ccontr)
    assume "k' \<noteq> k"
    then consider "k' + 1 \<le> k" | "k + 1 \<le> k'" by linarith
    then show False
    proof cases
      case 1
      from step [OF 1 k'(1) hi] show False .
    next
      case 2
      from step [OF 2 lo k'(2)] show False .
    qed
  qed
  with k'(3) show ?thesis by simp
qed

lemma rnd_scaled:
  fixes j :: nat
  assumes "2 ^ 52 \<le> a * 2 ^ j" and "a * 2 ^ j < 2 ^ 53"
  shows "rnd a = real_of_int (round_half_even (a * 2 ^ j)) / 2 ^ j"
  using rnd_at [of a "int j"] assms by simp


lemma round_double_zero: "round_double 0 = 0"
  by (simp add: round_double_def rnd_zero)

lemma double_0_80: "round_double (80 / 100) = 3602879701896397 / 2 ^ 52"
proof -
  have "rnd (80 / 100) = real_of_int (round_half_even (80 / 100 * 2 ^ 53)) / 2 ^ 53"
    by (rule rnd_scaled) simp_all
  moreover have "round_half_even (80 / 100 * 2 ^ 53) = 7205759403792794"
    by (simp add: round_half_even_def Let_def)
  ultimately show ?thesis by (simp add: round_double_def)
qed

lemma grid_floor:
  fixes k m :: int and j :: nat and q :: real
  assumes kq: "real_of_int k \<le> q" and near: "\<bar>real_of_int m / 2 ^ j - q\<bar> \<le> 1 / 2 ^ Suc j"
  shows "real_of_int k \<le> real_of_int m / 2 ^ j"
proof (rule ccontr)
  assume "\<not> real_of_int k \<le> real_of_int m / 2 ^ j"
  then have "real_of_int m / 2 ^ j < real_of_int k" by simp
  then have "real_of_int m < real_of_int k * 2 ^ j"
    by (simp add: pos_divide_less_eq)
  then have "real_of_int m < real_of_int (k * 2 ^ j)" by simp
  then have "m < k * 2 ^ j" by (simp only: of_int_less_iff)
  then have "m + 1 \<le> k * 2 ^ j" by simp
  then have "real_of_int (m + 1) \<le> real_of_int (k * 2 ^ j)" by (simp only: of_int_le_iff)
  then have "real_of_int m + 1 \<le> real_of_int k * 2 ^ j" by simp
  then have "(real_of_int m + 1) / 2 ^ j \<le> real_of_int k"
    by (simp add: pos_divide_le_eq)
  then have "real_of_int m / 2 ^ j + 1 / 2 ^ j \<le> q"
    using kq by (simp add: add_divide_distrib)
  moreover have "(1::real) / 2 ^ Suc j < 1 / 2 ^ j" by (simp add: field_simps)
  ultimately show False using near by linarith
qed

lemma round_double_error:
  assumes pos: "0 < q" and lt: "q < 2 ^ 50"
  shows "\<exists>j m. 3 \<le> j \<and> round_double q = real_of_int m / 2 ^ j \<and> \<bar>round_double q - q\<bar> \<le> 1 / 2 ^ Suc j"
proof -
  from rnd_char [OF pos] obtain k :: int where
    k: "2 ^ 52 \<le> q * power_int 2 k" "q * power_int 2 k < 2 ^ 53"
       "rnd q = real_of_int (round_half_even (q * power_int 2 k)) / power_int 2 k" by blast
  have k3: "3 \<le> k"
  proof (rule ccontr)
    assume "\<not> 3 \<le> k"
    then have "k \<le> 2" by simp
    then have "power_int (2::real) k \<le> power_int 2 2"
      by (intro power_int_increasing) simp_all
    then have p: "power_int (2::real) k \<le> 4" by simp
    have "q * power_int 2 k < 2 ^ 50 * power_int 2 k"
      using lt by (simp add: mult_strict_right_mono)
    also have "\<dots> \<le> 2 ^ 50 * 4"
      using p by (simp only: mult_le_cancel_left_pos zero_less_power zero_less_numeral)
    finally show False using k(1) by simp
  qed
  define j where "j = nat k"
  have pk: "power_int (2::real) k = 2 ^ j" using k3 by (simp add: power_int_def j_def)
  have j3: "3 \<le> j" using k3 by (simp add: j_def)
  define m where "m = round_half_even (q * 2 ^ j)"
  have y: "round_double q = real_of_int m / 2 ^ j"
    using pos by (simp add: round_double_def k(3) pk m_def)
  have "\<bar>real_of_int m - q * 2 ^ j\<bar> \<le> 1 / 2"
    unfolding m_def by (rule round_half_even_near)
  then have "\<bar>real_of_int m - q * 2 ^ j\<bar> / 2 ^ j \<le> (1 / 2) / 2 ^ j"
    by (intro divide_right_mono) simp_all
  moreover have "\<bar>real_of_int m - q * 2 ^ j\<bar> / 2 ^ j = \<bar>real_of_int m / 2 ^ j - q\<bar>"
  proof -
    have "real_of_int m / 2 ^ j - q = (real_of_int m - q * 2 ^ j) / 2 ^ j"
      by (simp add: diff_divide_distrib)
    then show ?thesis by (simp add: abs_divide)
  qed
  ultimately have "\<bar>real_of_int m / 2 ^ j - q\<bar> \<le> 1 / 2 ^ Suc j" by simp
  with y j3 show ?thesis by auto
qed

lemma threshold_percentage_eq: "threshold_percentage = 3602879701896397 / 2 ^ 52"
  unfolding threshold_percentage_def by (rule double_0_80)

lemma py_int_threshold:
  assumes n2: "n < 2 ^ 50"
  shows "py_int (round_double (threshold_percentage * real n)) = int ((4 * n) div 5)"
proof (cases "n = 0")
  case True
  then show ?thesis by (simp add: round_double_zero py_int_def)
next
  case False
  define q where "q = threshold_percentage * real n"
  define \<delta> where "\<delta> = real n / (5 * 2 ^ 52)"
  define k where "k = real_of_int (int ((4 * n) div 5))"
  have rn: "real n < 2 ^ 50" using n2 by (metis of_nat_less_iff of_nat_numeral of_nat_power)
  have r1: "1 \<le> real n" using False by simp
  have q: "q = 4 * real n / 5 + \<delta>"
    by (simp add: q_def \<delta>_def threshold_percentage_eq field_simps)
  have kle: "k \<le> 4 * real n / 5"
  proof -
    have "5 * ((4 * n) div 5) \<le> 4 * n" by simp
    then have "real (5 * ((4 * n) div 5)) \<le> real (4 * n)" by (simp only: of_nat_le_iff)
    then show ?thesis by (simp add: k_def)
  qed
  have klt: "4 * real n / 5 \<le> k + 1 - 1 / 5"
  proof -
    have "4 * n \<le> 5 * ((4 * n) div 5) + 4"
      using mod_less_divisor [of 5 "4 * n"] div_mult_mod_eq [of "4 * n" 5] by linarith
    then have "real (4 * n) \<le> real (5 * ((4 * n) div 5) + 4)" by (simp only: of_nat_le_iff)
    then show ?thesis by (simp add: k_def)
  qed
  have d0: "0 \<le> \<delta>" by (simp add: \<delta>_def)
  have dl: "\<delta> < 1 / 20"
    using rn by (simp add: \<delta>_def field_simps)
  have qge: "k \<le> q" using kle q d0 by linarith
  have qlt: "q < k + 1 - 1 / 5 + 1 / 20" using klt dl q by linarith
  have k0: "0 \<le> k" by (simp add: k_def)
  have qpos: "0 < q" using q d0 r1 by linarith
  have "(1::real) \<le> 2 ^ 50" by simp
  then have q50: "q < 2 ^ 50" using q dl rn by linarith
  from round_double_error [OF qpos q50] obtain j m where j3: "3 \<le> j"
    and y: "round_double q = real_of_int m / 2 ^ j" and d: "\<bar>round_double q - q\<bar> \<le> 1 / 2 ^ Suc j"
    by blast
  have "(2::real) ^ 3 \<le> 2 ^ j" using j3 by (intro power_increasing) simp_all
  then have "(2::real) ^ 4 \<le> 2 ^ Suc j" by simp
  then have u: "(1::real) / 2 ^ Suc j \<le> 1 / 16"
    by (simp add: field_simps)
  have ylo: "k \<le> round_double q"
    unfolding y k_def by (rule grid_floor [OF qge [unfolded k_def] d [unfolded y]])
  have yhi: "round_double q < k + 1"
    using d u qlt by linarith
  have "0 \<le> round_double q" using ylo k0 by linarith
  moreover have "\<lfloor>round_double q\<rfloor> = int ((4 * n) div 5)"
    using ylo yhi by (simp add: floor_unique k_def)
  ultimately show ?thesis by (simp add: py_int_def q_def)
qed






lemma rnd_le_rel:
  assumes pos: "0 < a"
  shows "rnd a \<le> a * (1 + 1 / 2 ^ 53)"
proof -
  from rnd_char [OF pos] obtain k :: int where
    k: "2 ^ 52 \<le> a * power_int 2 k" "a * power_int 2 k < 2 ^ 53"
       "rnd a = real_of_int (round_half_even (a * power_int 2 k)) / power_int 2 k" by blast
  define s :: real where "s = power_int 2 k"
  have s: "0 < s" by (simp add: s_def)
  define x where "x = a * s"
  have x: "2 ^ 52 \<le> x" using k(1) by (simp add: x_def s_def)
  have "real_of_int (round_half_even x) \<le> x + 1 / 2"
    using round_half_even_near [of x] by linarith
  also have "\<dots> \<le> x + x / 2 ^ 53" using x by simp
  finally have le: "real_of_int (round_half_even x) \<le> x + x / 2 ^ 53" .
  have "real_of_int (round_half_even x) / s \<le> (x + x / 2 ^ 53) / s"
    by (rule divide_right_mono [OF le]) (use s in simp)
  also have "\<dots> = a * (1 + 1 / 2 ^ 53)"
    using s by (simp add: x_def field_simps)
  finally show ?thesis by (simp add: k(3) x_def s_def)
qed

lemma py_int_threshold_le: "py_int (round_double (threshold_percentage * real n)) \<le> int n"
proof (cases "n = 0")
  case True
  then show ?thesis by (simp add: round_double_zero py_int_def)
next
  case False
  then have n: "0 < real n" by simp
  have tp: "0 < threshold_percentage" by (simp add: threshold_percentage_eq)
  have q: "0 < threshold_percentage * real n" using tp n by simp
  have "round_double (threshold_percentage * real n) = rnd (threshold_percentage * real n)"
    using q by (simp add: round_double_def)
  also have "\<dots> \<le> threshold_percentage * real n * (1 + 1 / 2 ^ 53)" by (rule rnd_le_rel [OF q])
  also have "\<dots> = (threshold_percentage * (1 + 1 / 2 ^ 53)) * real n" by simp
  also have "\<dots> \<le> 1 * real n"
  proof (rule mult_right_mono)
    show "threshold_percentage * (1 + 1 / 2 ^ 53) \<le> 1" by (simp add: threshold_percentage_eq)
    show "0 \<le> real n" by simp
  qed
  finally have "round_double (threshold_percentage * real n) \<le> real_of_int (int n)" by simp
  then have "py_int (round_double (threshold_percentage * real n)) \<le> py_int (real_of_int (int n))"
    by (rule py_int_mono)
  then show ?thesis by (simp add: py_int_def)
qed

lemma py_int_threshold_ge: "0 \<le> py_int (round_double (threshold_percentage * real n))"
proof -
  have "0 \<le> threshold_percentage * real n" by (simp add: threshold_percentage_eq)
  then have "round_double 0 \<le> round_double (threshold_percentage * real n)" by (rule round_double_mono)
  then have "py_int (round_double 0) \<le> py_int (round_double (threshold_percentage * real n))" by (rule py_int_mono)
  then show ?thesis by (simp add: round_double_zero py_int_def)
qed

subsection \<open>The loop, the count request and the threshold\<close>

lemma and_loop_foldl: "and_loop cs i acc = foldl FuncAnd acc (drop i cs)"
proof (induction cs i acc rule: and_loop.induct)
  case (1 cs i acc)
  show ?case
  proof (cases "i < length cs")
    case True
    then have "drop i cs = cs ! i # drop (Suc i) cs" by (simp add: Cons_nth_drop_Suc)
    with True "1" show ?thesis by (simp add: and_loop.simps [of cs i])
  next
    case False
    then show ?thesis by (simp add: and_loop.simps [of cs i])
  qed
qed

lemma criteria_final_cons: "criteria_final (c # cs) = Inr (foldl FuncAnd c cs)"
  by (simp add: criteria_final_def and_loop_foldl)

lemma execute_count:
  "service_answer svc count_request =
     Inr [\<lparr>sir_name = ''COUNT'', sir_df = [([], Some (real (length (univ_members svc ''UKX Index''))))]\<rparr>]"
  by (simp add: count_request_def bq_univ_def id_count_def eval_rows_def)

lemma num_of_members_count:
  "num_of_members [\<lparr>sir_name = ''COUNT'', sir_df = s\<rparr>] = Inr s"
  by (simp add: num_of_members_def)

lemma threshold_rank_single: "threshold_rank p [(k, Some x)] = Inr (py_int (round_double (p * x)))"
  by (simp add: threshold_rank_def)

lemma floor_four_fifths: "\<lfloor>80 / 100 * real n\<rfloor> = int ((4 * n) div 5)"
proof -
  have "80 / 100 * real n = real_of_int (int (4 * n)) / real_of_int 5" by simp
  then have "\<lfloor>80 / 100 * real n\<rfloor> = int (4 * n) div 5"
    by (simp only: floor_divide_of_int_eq)
  then show ?thesis by (simp add: zdiv_int)
qed

lemma eval_crit_foldl:
  "list_all2 (\<lambda>fr r. eval svc us fr = Inr r) frs rs \<Longrightarrow> eval_crit svc us acc = Inr P \<Longrightarrow>
   eval_crit svc us (foldl FuncAnd acc (criteria frs t)) =
     Inr (\<lambda>i. P i \<and> list_all (\<lambda>r. bql_le (r i) t) rs)"
proof (induction frs rs arbitrary: acc P rule: list_all2_induct)
  case Nil
  then show ?case by (simp add: criteria_def)
next
  case (Cons fr frs r rs)
  have "eval_crit svc us (FuncAnd acc (Le fr t)) = Inr (\<lambda>i. P i \<and> bql_le (r i) t)"
    using Cons.hyps(1) Cons.prems by simp
  from Cons.IH [OF this] show ?case by (simp add: criteria_def conj_assoc)
qed

lemma screened_eq:
  assumes "list_all2 (\<lambda>fr r. eval svc (univ_members svc ''UKX Index'') fr = Inr r) (fr # frs) (r # rs)"
  shows "screened p (fr # frs) svc =
     Inr (filter (\<lambda>i. list_all (\<lambda>r. bql_le (r i) (py_int (round_double (p * real (length (univ_members svc ''UKX Index'')))))) (r # rs))
            (univ_members svc ''UKX Index''))"
proof -
  let ?us = "univ_members svc ''UKX Index''"
  let ?t = "py_int (round_double (p * real (length ?us)))"
  from assms have h: "eval svc ?us fr = Inr r" and t: "list_all2 (\<lambda>fr r. eval svc ?us fr = Inr r) frs rs"
    by simp_all
  have "eval_crit svc ?us (Le fr ?t) = Inr (\<lambda>i. bql_le (r i) ?t)"
    using h by simp
  from eval_crit_foldl [OF t this]
  have "eval_crit svc ?us (foldl FuncAnd (Le fr ?t) (criteria frs ?t)) =
          Inr (\<lambda>i. list_all (\<lambda>r. bql_le (r i) ?t) (r # rs))"
    by simp
  then show ?thesis
    by (simp add: screened_def execute_count num_of_members_count threshold_rank_single
        criteria_def [of "fr # frs"] criteria_def [symmetric, of _ frs] criteria_final_cons filtered_univ_def bq_univ_def)
qed

lemma bql_le_iff: "bql_le a t \<longleftrightarrow> (\<exists>k. a = Some k \<and> k \<le> real_of_int t)"
  by (cases a) (simp_all add: bql_le_def)

lemma threshold_of_count:
  "\<exists>bq_res num. service_answer svc count_request = Inr bq_res \<and> num_of_members bq_res = Inr num \<and>
     threshold_rank p num = Inr (py_int (round_double (p * real (length (univ_members svc ''UKX Index'')))))"
  by (simp add: execute_count num_of_members_count threshold_rank_single)

lemma four_fifths_le: "(4 * n) div 5 \<le> (n::nat)"
  by simp

lemma card_bij_le:
  assumes bij: "bij_betw \<rho> S {1..n}" and t: "t \<le> (n::nat)"
  shows "card {i \<in> S. \<rho> i \<le> t} = t"
proof -
  have inj: "inj_on \<rho> S" and img: "\<rho> ` S = {1..n}"
    using bij by (simp_all add: bij_betw_def)
  have "\<rho> ` {i \<in> S. \<rho> i \<le> t} = {1..t}"
  proof (rule set_eqI, rule iffI)
    fix k assume "k \<in> \<rho> ` {i \<in> S. \<rho> i \<le> t}"
    then obtain i where i: "i \<in> S" "\<rho> i \<le> t" "k = \<rho> i" by auto
    from i(1) img have "\<rho> i \<in> {1..n}" by blast
    with i show "k \<in> {1..t}" by simp
  next
    fix k assume k: "k \<in> {1..t}"
    with t have "k \<in> {1..n}" by simp
    with img obtain i where "i \<in> S" "k = \<rho> i" by (metis imageE)
    with k show "k \<in> \<rho> ` {i \<in> S. \<rho> i \<le> t}" by auto
  qed
  moreover have "inj_on \<rho> {i \<in> S. \<rho> i \<le> t}"
    by (rule inj_on_subset [OF inj]) auto
  ultimately have "card {i \<in> S. \<rho> i \<le> t} = card {1..t}"
    by (metis card_image)
  then show ?thesis by simp
qed

subsection \<open>The worked example, evaluated\<close>

lemma example_univ: "univ_members example ''UKX Index'' = example_members"
  by (simp add: example_def)

lemmas example_unfold =
  rank_func_def bq_avg_roe_2y_def bq_px_to_book_def bq_cash_per_asset_def cash_from_oper_def
  tot_asset_def example_def example_data_def example_members_def lift2_def bql_add_def bql_div_def
  bql_div_num_def bql_znav_def bql_rank_def mean_def stdev_def Let_def

lemma example_rank_roe:
  "\<exists>r. eval example example_members (rank_func bq_avg_roe_2y) = Inr r \<and>
       map r example_members = [Some 1, Some 2, Some 3, Some 4, Some 5]"
  by (simp add: example_unfold)

lemma example_rank_px:
  "\<exists>r. eval example example_members (rank_func bq_px_to_book) = Inr r \<and>
       map r example_members = [Some 2, Some 1, Some 3, Some 5, Some 4]"
  by (simp add: example_unfold)

lemma example_rank_cash:
  "\<exists>r. eval example example_members (rank_func bq_cash_per_asset) = Inr r \<and>
       map r example_members = [Some 4, Some 3, Some 2, Some 1, Some 5]"
  by (simp add: example_unfold)


lemma example_rho_bij: "bij_betw example_rho (set example_members) {1..length example_members}"
proof -
  have "{1..length example_members} = {1, 2, 3, 4, 5}"
    by (auto simp: example_members_def)
  moreover have "example_rho ` set example_members = {1, 2, 3, 4, 5}"
    by (auto simp: example_rho_def example_members_def)
  moreover have "inj_on example_rho (set example_members)"
    by (simp add: example_rho_def example_members_def)
  ultimately show ?thesis
    by (simp only: bij_betw_def simp_thms)
qed

subsection \<open>The factors, the requests and the table\<close>

lemma eval_avg_roe_2y:
  "eval svc us bq_avg_roe_2y =
     Inr (\<lambda>i. bql_div_num (bql_add (data_field svc ''return_com_eqy'' [(''fa_period_offset'', ''-1'')] i)
                                     (data_field svc ''return_com_eqy'' [(''fa_period_offset'', ''-2'')] i)) 2)"
  by (simp add: bq_avg_roe_2y_def lift2_def)

lemma eval_px_to_book:
  "eval svc us bq_px_to_book =
     Inr (\<lambda>i. bql_div (data_field svc ''px_last'' [(''fill'', ''PREV''), (''currency'', ''GBP'')] i)
                       (data_field svc ''book_val_per_sh'' [(''fa_period_type'', ''LTM''), (''currency'', ''GBP'')] i))"
  by (simp add: bq_px_to_book_def lift2_def)

lemma eval_cash_per_asset:
  "eval svc us bq_cash_per_asset =
     Inr (\<lambda>i. bql_div (data_field svc ''cf_cash_from_oper'' [(''fa_period_type'', ''LTM'')] i)
                       (data_field svc ''bs_tot_asset'' [(''fa_period_type'', ''LTM'')] i))"
  by (simp add: bq_cash_per_asset_def cash_from_oper_def tot_asset_def lift2_def)

lemma screened_eval_univ:
  "screened p (fr # frs) svc =
     eval_univ svc (filtered_univ (foldl FuncAnd (Le fr (py_int (round_double (p * real (length (univ_members svc ''UKX Index''))))))
        (criteria frs (py_int (round_double (p * real (length (univ_members svc ''UKX Index''))))))))"
  by (simp add: screened_def execute_count num_of_members_count threshold_rank_single
      criteria_def [of "fr # frs"] criteria_def [symmetric, of _ frs] criteria_final_cons)

lemma execute_cases:
  "execute svc rq = (case service_error svc rq of Some e \<Rightarrow> Inl e | None \<Rightarrow> service_answer svc rq)"
  by (simp add: execute_def)

lemma service_answer_bq_request:
  "service_answer svc (bq_request cf) =
     (case eval_univ svc (filtered_univ cf) of Inl e \<Rightarrow> Inl e
      | Inr F \<Rightarrow> execute_items svc F items_ordered_dict)"
  by (simp add: bq_request_def)

lemma screening_unfold:
  fixes p :: real and svc :: service and fr :: item and frs :: "item list"
  defines "t \<equiv> py_int (round_double (p * real (length (univ_members svc ''UKX Index''))))"
  defines "rq \<equiv> bq_request (foldl FuncAnd (Le fr t) (criteria frs t))"
  shows "screening p (fr # frs) svc sent =
     (case service_error svc count_request of
        Some e \<Rightarrow> (Inl e, sent @ [count_request])
      | None \<Rightarrow>
          (case service_error svc rq of
             Some e \<Rightarrow> (Inl e, sent @ [count_request, rq])
           | None \<Rightarrow>
               ((case screened p (fr # frs) svc of Inl e \<Rightarrow> Inl e
                 | Inr F \<Rightarrow> (case execute_items svc F items_ordered_dict of Inl e \<Rightarrow> Inl e
                             | Inr res \<Rightarrow> pd_concat res)),
                sent @ [count_request, rq])))"
proof (cases "service_error svc count_request")
  case (Some e)
  then show ?thesis
    by (simp add: screening_def bq_execute_def execute_cases)
next
  case None
  have c: "criteria_final (criteria (fr # frs) t) = Inr (foldl FuncAnd (Le fr t) (criteria frs t))"
    by (simp add: criteria_def criteria_final_cons)
  have s: "screened p (fr # frs) svc = eval_univ svc (filtered_univ (foldl FuncAnd (Le fr t) (criteria frs t)))"
    unfolding t_def by (rule screened_eval_univ)
  have first: "bq_execute svc count_request sent =
      (Inr [\<lparr>sir_name = ''COUNT'', sir_df = [([], Some (real (length (univ_members svc ''UKX Index''))))]\<rparr>],
       sent @ [count_request])"
    by (simp add: bq_execute_def execute_cases None execute_count)
  have thr: "threshold_rank p [([], Some (real (length (univ_members svc ''UKX Index''))))] = Inr t"
    by (simp add: threshold_rank_single t_def)
  have mid: "screening p (fr # frs) svc sent =
     (case bq_execute svc rq (sent @ [count_request]) of
        (Inl e, sent2) \<Rightarrow> (Inl e, sent2)
      | (Inr bq_res2, sent2) \<Rightarrow> (pd_concat bq_res2, sent2))"
    by (simp add: screening_def first num_of_members_count thr c rq_def)
  show ?thesis
  proof (cases "service_error svc rq")
    case (Some e)
    then show ?thesis
      using None by (simp add: mid bq_execute_def execute_cases)
  next
    case None2: None
    show ?thesis
      using None None2
      by (simp add: mid bq_execute_def execute_cases s rq_def service_answer_bq_request split: sum.split)
  qed
qed

lemma pd_concat_three:
  "pd_concat [\<lparr>sir_name = n1, sir_df = map (\<lambda>i. (i, a i)) F\<rparr>,
              \<lparr>sir_name = n2, sir_df = map (\<lambda>i. (i, b i)) F\<rparr>,
              \<lparr>sir_name = n3, sir_df = map (\<lambda>i. (i, c i)) F\<rparr>] =
     Inr \<lparr>df_columns = [n1, n2, n3], df_rows = map (\<lambda>i. (i, [a i, b i, c i])) F\<rparr>"
  apply (simp add: pd_concat_def Let_def comp_def)
  apply (rule nth_equalityI)
   apply simp_all
  done

lemma run_unfold:
  fixes svc :: service
  defines "t \<equiv> py_int (round_double (threshold_percentage * real (length (univ_members svc ''UKX Index''))))"
  defines "rq \<equiv> bq_request (FuncAnd (FuncAnd (Le (rank_func bq_avg_roe_2y) t) (Le (rank_func bq_px_to_book) t))
                                      (Le (rank_func bq_cash_per_asset) t))"
  shows "\<exists>x_roe x_pb x_cpa.
     eval svc (univ_members svc ''UKX Index'') bq_avg_roe_2y = Inr x_roe \<and>
     eval svc (univ_members svc ''UKX Index'') bq_px_to_book = Inr x_pb \<and>
     eval svc (univ_members svc ''UKX Index'') bq_cash_per_asset = Inr x_cpa \<and>
     run svc sent =
       (case service_error svc count_request of
          Some e \<Rightarrow> (Inl e, sent @ [count_request])
        | None \<Rightarrow>
            (case service_error svc rq of
               Some e \<Rightarrow> (Inl e, sent @ [count_request, rq])
             | None \<Rightarrow>
                 ((case screened threshold_percentage factor_ranks svc of Inl e \<Rightarrow> Inl e
                   | Inr F \<Rightarrow> Inr \<lparr>df_columns = [''AVE_ROE_2Y'', ''PX_BOOK_VALUE'', ''CASH_PER_ASSET''],
                                  df_rows = map (\<lambda>i. (i, [x_roe i, x_pb i, x_cpa i])) F\<rparr>),
                  sent @ [count_request, rq])))"
proof -
  let ?us = "univ_members svc ''UKX Index''"
  obtain x_roe x_pb x_cpa where e: "eval svc ?us bq_avg_roe_2y = Inr x_roe" "eval svc ?us bq_px_to_book = Inr x_pb"
     "eval svc ?us bq_cash_per_asset = Inr x_cpa"
    by (simp add: eval_avg_roe_2y eval_px_to_book eval_cash_per_asset)
  have x: "execute_items svc F items_ordered_dict =
       Inr [\<lparr>sir_name = ''AVE_ROE_2Y'', sir_df = map (\<lambda>i. (i, x_roe i)) F\<rparr>,
            \<lparr>sir_name = ''PX_BOOK_VALUE'', sir_df = map (\<lambda>i. (i, x_pb i)) F\<rparr>,
            \<lparr>sir_name = ''CASH_PER_ASSET'', sir_df = map (\<lambda>i. (i, x_cpa i)) F\<rparr>]" for F
    using e by (simp add: items_ordered_dict_def eval_rows_def eval_avg_roe_2y eval_px_to_book eval_cash_per_asset)
  have "run svc sent =
       (case service_error svc count_request of
          Some e \<Rightarrow> (Inl e, sent @ [count_request])
        | None \<Rightarrow>
            (case service_error svc rq of
               Some e \<Rightarrow> (Inl e, sent @ [count_request, rq])
             | None \<Rightarrow>
                 ((case screened threshold_percentage factor_ranks svc of Inl e \<Rightarrow> Inl e
                   | Inr F \<Rightarrow> Inr \<lparr>df_columns = [''AVE_ROE_2Y'', ''PX_BOOK_VALUE'', ''CASH_PER_ASSET''],
                                  df_rows = map (\<lambda>i. (i, [x_roe i, x_pb i, x_cpa i])) F\<rparr>),
                  sent @ [count_request, rq])))"
    unfolding t_def rq_def
    by (simp add: run_def factor_ranks_def screening_unfold x pd_concat_three criteria_def
        cong: sum.case_cong option.case_cong)
  with e show ?thesis by blast
qed

lemma run_result:
  assumes "service_error svc = (\<lambda>rq. None)"
  shows "\<exists>x_roe x_pb x_cpa.
     eval svc (univ_members svc ''UKX Index'') bq_avg_roe_2y = Inr x_roe \<and>
     eval svc (univ_members svc ''UKX Index'') bq_px_to_book = Inr x_pb \<and>
     eval svc (univ_members svc ''UKX Index'') bq_cash_per_asset = Inr x_cpa \<and>
     fst (run svc sent) =
       (case screened threshold_percentage factor_ranks svc of Inl e \<Rightarrow> Inl e
        | Inr F \<Rightarrow> Inr \<lparr>df_columns = [''AVE_ROE_2Y'', ''PX_BOOK_VALUE'', ''CASH_PER_ASSET''],
                       df_rows = map (\<lambda>i. (i, [x_roe i, x_pb i, x_cpa i])) F\<rparr>)"
  using run_unfold [of svc sent] by (auto simp: assms)

lemma example_screened:
  "screened threshold_percentage factor_ranks example = Inr [''A'', ''B'', ''C'']"
proof -
  obtain r1 where r1: "eval example (univ_members example ''UKX Index'') (rank_func bq_avg_roe_2y) = Inr r1"
    and m1: "map r1 example_members = [Some 1, Some 2, Some 3, Some 4, Some 5]"
    using example_rank_roe unfolding example_univ by (elim exE conjE)
  obtain r2 where r2: "eval example (univ_members example ''UKX Index'') (rank_func bq_px_to_book) = Inr r2"
    and m2: "map r2 example_members = [Some 2, Some 1, Some 3, Some 5, Some 4]"
    using example_rank_px unfolding example_univ by (elim exE conjE)
  obtain r3 where r3: "eval example (univ_members example ''UKX Index'') (rank_func bq_cash_per_asset) = Inr r3"
    and m3: "map r3 example_members = [Some 4, Some 3, Some 2, Some 1, Some 5]"
    using example_rank_cash unfolding example_univ by (elim exE conjE)
  have t: "py_int (round_double (threshold_percentage * real (length (univ_members example ''UKX Index'')))) = 4"
    using py_int_threshold [of 5] by (simp add: example_univ example_members_def)
  have "screened threshold_percentage factor_ranks example =
     Inr (filter (\<lambda>i. list_all (\<lambda>r. bql_le (r i) 4) [r1, r2, r3]) (univ_members example ''UKX Index''))"
    unfolding factor_ranks_def
    using screened_eq [where svc=example and frs="[rank_func bq_px_to_book, rank_func bq_cash_per_asset]"
        and rs="[r2, r3]" and fr="rank_func bq_avg_roe_2y" and r=r1 and p=threshold_percentage] r1 r2 r3
    by (simp only: t list_all2_Cons list_all2_Nil simp_thms)
  also have "\<dots> = Inr [''A'', ''B'', ''C'']"
    using m1 m2 m3 by (simp add: example_univ example_members_def bql_le_def)
  finally show ?thesis .
qed

lemma example_run:
  "fst (run example []) =
     Inr \<lparr>df_columns = [''AVE_ROE_2Y'', ''PX_BOOK_VALUE'', ''CASH_PER_ASSET''],
          df_rows = [(''A'', [Some 1, Some 3, Some 5]), (''B'', [Some 3, Some 1, Some 4]),
                     (''C'', [Some 4, Some 4, Some 3])]\<rparr>"
proof -
  have "service_error example = (\<lambda>rq. None)" by (simp add: example_def)
  from run_result [OF this, of "[]"] obtain x_roe x_pb x_cpa where
    e: "eval example (univ_members example ''UKX Index'') bq_avg_roe_2y = Inr x_roe"
       "eval example (univ_members example ''UKX Index'') bq_px_to_book = Inr x_pb"
       "eval example (univ_members example ''UKX Index'') bq_cash_per_asset = Inr x_cpa"
    and r: "fst (run example []) =
       Inr \<lparr>df_columns = [''AVE_ROE_2Y'', ''PX_BOOK_VALUE'', ''CASH_PER_ASSET''],
            df_rows = map (\<lambda>i. (i, [x_roe i, x_pb i, x_cpa i])) [''A'', ''B'', ''C'']\<rparr>"
    by (auto simp: example_screened)
  have "x_roe ''A'' = Some 1 \<and> x_roe ''B'' = Some 3 \<and> x_roe ''C'' = Some 4"
    using e(1) by (auto simp: eval_avg_roe_2y example_def example_data_def bql_add_def bql_div_num_def)
  moreover have "x_pb ''A'' = Some 3 \<and> x_pb ''B'' = Some 1 \<and> x_pb ''C'' = Some 4"
    using e(2) by (auto simp: eval_px_to_book example_def example_data_def bql_div_def)
  moreover have "x_cpa ''A'' = Some 5 \<and> x_cpa ''B'' = Some 4 \<and> x_cpa ''C'' = Some 3"
    using e(3) by (auto simp: eval_cash_per_asset example_def example_data_def bql_div_def)
  ultimately show ?thesis using r by simp
qed

subsection \<open>The run depends on the universe and the factor values only\<close>

lemma eval_rank_func:
  "eval svc us (rank_func f) =
     (case eval svc us f of Inl e \<Rightarrow> Inl e
      | Inr x \<Rightarrow> (case bql_znav us x of Inl e \<Rightarrow> Inl e | Inr z \<Rightarrow> Inr (bql_rank us z)))"
  by (simp add: rank_func_def split: sum.split)

lemma bql_znav_empty: "bql_znav [] x = Inl EmptyUniverse"
  by (simp add: bql_znav_def)

lemma bql_znav_cong:
  assumes "us \<noteq> []" and "\<forall>i\<in>set us. x i = y i"
  shows "\<exists>zx zy. bql_znav us x = Inr zx \<and> bql_znav us y = Inr zy \<and> (\<forall>i\<in>set us. zx i = zy i)"
proof -
  have eq: "map x us = map y us" using assms(2) by simp
  show ?thesis unfolding bql_znav_def Let_def eq using assms by simp
qed

lemma bql_rank_cong:
  assumes "\<forall>i\<in>set us. zx i = zy i"
  shows "\<forall>i\<in>set us. bql_rank us zx i = bql_rank us zy i"
proof -
  have eq: "map zx us = map zy us" using assms by simp
  show ?thesis unfolding bql_rank_def eq using assms by simp
qed

lemma rank_func_cong:
  assumes "eval svc1 us f = Inr a1" and "eval svc2 us f = Inr a2" and "\<forall>i\<in>set us. a1 i = a2 i"
  shows "(us = [] \<and> eval svc1 us (rank_func f) = Inl EmptyUniverse \<and> eval svc2 us (rank_func f) = Inl EmptyUniverse) \<or>
         (\<exists>r1 r2. eval svc1 us (rank_func f) = Inr r1 \<and> eval svc2 us (rank_func f) = Inr r2 \<and>
            (\<forall>i\<in>set us. r1 i = r2 i))"
proof (cases "us = []")
  case True
  then show ?thesis using assms by (simp add: eval_rank_func bql_znav_empty)
next
  case False
  from bql_znav_cong [OF False assms(3)] obtain zx zy where
    z: "bql_znav us a1 = Inr zx" "bql_znav us a2 = Inr zy" "\<forall>i\<in>set us. zx i = zy i" by blast
  from bql_rank_cong [OF z(3)] show ?thesis
    using assms z by (simp add: eval_rank_func)
qed

lemma rank_func_cong_map:
  assumes "eval svc1 us f = Inr a1" and "eval svc2 us f = Inr a2" and "\<forall>i\<in>set us. a1 i = a2 i"
  shows "map_sum id (\<lambda>r. map r us) (eval svc1 us (rank_func f)) =
         map_sum id (\<lambda>r. map r us) (eval svc2 us (rank_func f))"
  using rank_func_cong [OF assms] by auto

lemma screened_empty:
  assumes "univ_members svc ''UKX Index'' = []"
  shows "screened p factor_ranks svc = Inl EmptyUniverse"
  using assms
  by (simp add: factor_ranks_def screened_eval_univ filtered_univ_def bq_univ_def criteria_def
      eval_rank_func eval_avg_roe_2y bql_znav_empty)

lemma screened_cong:
  assumes u1: "univ_members svc1 ''UKX Index'' = us" and u2: "univ_members svc2 ''UKX Index'' = us"
    and a: "eval svc1 us bq_avg_roe_2y = Inr a1" "eval svc2 us bq_avg_roe_2y = Inr a2" "\<forall>i\<in>set us. a1 i = a2 i"
    and b: "eval svc1 us bq_px_to_book = Inr b1" "eval svc2 us bq_px_to_book = Inr b2" "\<forall>i\<in>set us. b1 i = b2 i"
    and c: "eval svc1 us bq_cash_per_asset = Inr c1" "eval svc2 us bq_cash_per_asset = Inr c2" "\<forall>i\<in>set us. c1 i = c2 i"
  shows "screened p factor_ranks svc1 = screened p factor_ranks svc2"
proof (cases "us = []")
  case True
  then show ?thesis using u1 u2 by (simp add: screened_empty)
next
  case False
  from rank_func_cong [OF a] False obtain ra1 ra2 where
    ra: "eval svc1 us (rank_func bq_avg_roe_2y) = Inr ra1" "eval svc2 us (rank_func bq_avg_roe_2y) = Inr ra2"
      "\<forall>i\<in>set us. ra1 i = ra2 i" by blast
  from rank_func_cong [OF b] False obtain rb1 rb2 where
    rb: "eval svc1 us (rank_func bq_px_to_book) = Inr rb1" "eval svc2 us (rank_func bq_px_to_book) = Inr rb2"
      "\<forall>i\<in>set us. rb1 i = rb2 i" by blast
  from rank_func_cong [OF c] False obtain rc1 rc2 where
    rc: "eval svc1 us (rank_func bq_cash_per_asset) = Inr rc1" "eval svc2 us (rank_func bq_cash_per_asset) = Inr rc2"
      "\<forall>i\<in>set us. rc1 i = rc2 i" by blast
  let ?t = "py_int (round_double (p * real (length us)))"
  have s1: "screened p factor_ranks svc1 = Inr (filter (\<lambda>i. list_all (\<lambda>r. bql_le (r i) ?t) [ra1, rb1, rc1]) us)"
    unfolding factor_ranks_def
    using screened_eq [where svc=svc1 and frs="[rank_func bq_px_to_book, rank_func bq_cash_per_asset]"
        and rs="[rb1, rc1]" and fr="rank_func bq_avg_roe_2y" and r=ra1 and p=p] ra(1) rb(1) rc(1) u1
    by simp
  have s2: "screened p factor_ranks svc2 = Inr (filter (\<lambda>i. list_all (\<lambda>r. bql_le (r i) ?t) [ra2, rb2, rc2]) us)"
    unfolding factor_ranks_def
    using screened_eq [where svc=svc2 and frs="[rank_func bq_px_to_book, rank_func bq_cash_per_asset]"
        and rs="[rb2, rc2]" and fr="rank_func bq_avg_roe_2y" and r=ra2 and p=p] ra(2) rb(2) rc(2) u2
    by simp
  have "filter (\<lambda>i. list_all (\<lambda>r. bql_le (r i) ?t) [ra1, rb1, rc1]) us =
        filter (\<lambda>i. list_all (\<lambda>r. bql_le (r i) ?t) [ra2, rb2, rc2]) us"
    by (rule filter_cong) (use ra(3) rb(3) rc(3) in simp_all)
  with s1 s2 show ?thesis by simp
qed

lemma screened_subset:
  "screened p factor_ranks svc = Inr F \<Longrightarrow> set F \<subseteq> set (univ_members svc ''UKX Index'')"
  by (auto simp: factor_ranks_def screened_eval_univ filtered_univ_def bq_univ_def split: sum.splits)

subsection \<open>Standardization and dense ranks\<close>

lemma present_map_Some:
  "\<forall>i\<in>set us. x i = Some (f i) \<Longrightarrow> present (map x us) = map f us"
  by (induction us) simp_all

lemma mean_const: "us \<noteq> [] \<Longrightarrow> mean (map (\<lambda>_. c) us) = c"
  by (simp add: mean_def sum_list_triv)

lemma stdev_const: "us \<noteq> [] \<Longrightarrow> stdev (map (\<lambda>_. c) us) = 0"
  by (simp add: stdev_def mean_const comp_def)

lemma card_below_strict_mono:
  fixes Z :: "real set"
  assumes fin: "finite Z" and a: "a \<in> Z" and ab: "a < b"
  shows "card {y \<in> Z. y < a} < card {y \<in> Z. y < b}"
proof (rule psubset_card_mono)
  show "finite {y \<in> Z. y < b}" using fin by simp
  have "a \<in> {y \<in> Z. y < b}" "a \<notin> {y \<in> Z. y < a}" using a ab by simp_all
  moreover have "{y \<in> Z. y < a} \<subseteq> {y \<in> Z. y < b}" using ab by auto
  ultimately show "{y \<in> Z. y < a} \<subset> {y \<in> Z. y < b}" by blast
qed

lemma card_below_less:
  fixes Z :: "real set"
  assumes fin: "finite Z" and a: "a \<in> Z"
  shows "card {y \<in> Z. y < a} < card Z"
proof (rule psubset_card_mono [OF fin])
  show "{y \<in> Z. y < a} \<subset> Z" using a by auto
qed

lemma card_below_bij:
  fixes Z :: "real set"
  assumes fin: "finite Z"
  shows "bij_betw (\<lambda>a. card {y \<in> Z. y < a}) Z {0..<card Z}"
proof -
  let ?g = "\<lambda>a. card {y \<in> Z. y < a}"
  have inj: "inj_on ?g Z"
  proof (rule inj_onI)
    fix a b assume a: "a \<in> Z" and b: "b \<in> Z" and eq: "?g a = ?g b"
    show "a = b"
    proof (rule ccontr)
      assume "a \<noteq> b"
      then consider "a < b" | "b < a" by linarith
      then show False
      proof cases
        case 1
        from card_below_strict_mono [OF fin a 1] eq show False by simp
      next
        case 2
        from card_below_strict_mono [OF fin b 2] eq show False by simp
      qed
    qed
  qed
  have sub: "?g ` Z \<subseteq> {0..<card Z}"
    using card_below_less [OF fin] by auto
  have "card (?g ` Z) = card {0..<card Z}"
    using inj by (simp add: card_image)
  with sub have "?g ` Z = {0..<card Z}"
    by (simp add: card_subset_eq)
  with inj show ?thesis by (simp add: bij_betw_def)
qed

lemma stdev_zero_all_mean:
  assumes "stdev xs = 0" and "xs \<noteq> []" and "v \<in> set xs"
  shows "v = mean xs"
proof -
  let ?d = "map (\<lambda>x. (x - mean xs)\<^sup>2) xs"
  from assms(1) have "sum_list ?d / real (length xs) = 0"
    by (simp add: stdev_def)
  with assms(2) have "sum_list ?d = 0" by simp
  moreover have "\<And>y. y \<in> set ?d \<Longrightarrow> 0 \<le> y" by auto
  ultimately have "\<forall>y\<in>set ?d. y = 0"
    by (simp only: sum_list_nonneg_eq_0_iff)
  with assms(3) have "(v - mean xs)\<^sup>2 = 0" by simp
  then show ?thesis by simp
qed

lemma bij_betw_Suc_upt: "bij_betw Suc {0..<n} {1..n}"
  by (rule bij_betw_byWitness [where f'="\<lambda>k. k - 1"]) auto

lemma example_roe_values:
  "\<exists>x. eval example example_members bq_avg_roe_2y = Inr x \<and>
       map x example_members = [Some 1, Some 3, Some 4, Some 5, Some 7]"
  by (simp add: eval_avg_roe_2y example_def example_data_def example_members_def bql_add_def bql_div_num_def)

subsection \<open>Requests that fail\<close>

text \<open>
  What a run submits and returns, by the request at which the service fails, if any.
\<close>

lemma run_requests:
  fixes svc :: service
  defines "t \<equiv> py_int (round_double (threshold_percentage * real (length (univ_members svc ''UKX Index''))))"
  defines "rq \<equiv> bq_request (FuncAnd (FuncAnd (Le (rank_func bq_avg_roe_2y) t) (Le (rank_func bq_px_to_book) t))
                                      (Le (rank_func bq_cash_per_asset) t))"
  shows "snd (run svc sent) =
           (case service_error svc count_request of Some e \<Rightarrow> sent @ [count_request]
            | None \<Rightarrow> sent @ [count_request, rq])"
    and "service_error svc count_request = Some e \<Longrightarrow> run svc sent = (Inl e, sent @ [count_request])"
    and "fst (run svc sent) = Inr df \<Longrightarrow> snd (run svc sent) = sent @ [count_request, rq]"
    and "fst (run svc sent) = Inr df \<Longrightarrow> service_error svc count_request = None \<and> service_error svc rq = None"
  using run_unfold [of svc sent] unfolding t_def rq_def
  by (auto split: option.splits sum.splits)

lemma run_table:
  assumes "fst (run svc sent) = Inr df"
  shows "\<exists>F x_roe x_pb x_cpa.
     screened threshold_percentage factor_ranks svc = Inr F \<and>
     eval svc (univ_members svc ''UKX Index'') bq_avg_roe_2y = Inr x_roe \<and>
     eval svc (univ_members svc ''UKX Index'') bq_px_to_book = Inr x_pb \<and>
     eval svc (univ_members svc ''UKX Index'') bq_cash_per_asset = Inr x_cpa \<and>
     df = \<lparr>df_columns = [''AVE_ROE_2Y'', ''PX_BOOK_VALUE'', ''CASH_PER_ASSET''],
           df_rows = map (\<lambda>i. (i, [x_roe i, x_pb i, x_cpa i])) F\<rparr>"
  using run_unfold [of svc sent] assms
  by (auto split: option.splits sum.splits)

lemma run_cases:
  fixes svc :: service
  defines "t \<equiv> py_int (round_double (threshold_percentage * real (length (univ_members svc ''UKX Index''))))"
  defines "rq \<equiv> bq_request (FuncAnd (FuncAnd (Le (rank_func bq_avg_roe_2y) t) (Le (rank_func bq_px_to_book) t))
                                      (Le (rank_func bq_cash_per_asset) t))"
  shows "service_error svc count_request = None \<Longrightarrow> service_error svc rq = Some e \<Longrightarrow>
           run svc sent = (Inl e, sent @ [count_request, rq])"
    and "service_error svc count_request = None \<Longrightarrow> service_error svc rq = None \<Longrightarrow>
         eval svc (univ_members svc ''UKX Index'') bq_avg_roe_2y = Inr a \<Longrightarrow>
         eval svc (univ_members svc ''UKX Index'') bq_px_to_book = Inr b \<Longrightarrow>
         eval svc (univ_members svc ''UKX Index'') bq_cash_per_asset = Inr c \<Longrightarrow>
           run svc sent =
             ((case screened threshold_percentage factor_ranks svc of Inl e \<Rightarrow> Inl e
               | Inr F \<Rightarrow> Inr \<lparr>df_columns = [''AVE_ROE_2Y'', ''PX_BOOK_VALUE'', ''CASH_PER_ASSET''],
                              df_rows = map (\<lambda>i. (i, [a i, b i, c i])) F\<rparr>),
              sent @ [count_request, rq])"
  using run_unfold [of svc sent] unfolding t_def rq_def
  by (auto split: option.splits sum.splits)

lemma example_no_error: "service_error example rq = None"
  by (simp add: example_def)

lemma example_late_run:
  "\<exists>cf. run example_late [] = (Inl ServiceError, [count_request, bq_request cf])"
proof -
  have a: "service_error example_late count_request = None"
    by (simp add: example_late_def)
  have b: "service_error example_late (bq_request cf) = Some ServiceError" for cf
    by (simp add: example_late_def bq_request_def count_request_def filtered_univ_def bq_univ_def)
  from run_cases(1) [OF a b, of "[]"] show ?thesis by auto
qed

text \<open>
  The requests of a run against any \<^verbatim>\<open>bq.execute\<close>, and two runs that end at lines 43
  and 47 of the script, on a response without elements and on a count that is missing.
\<close>

lemma run_on_execute: "run svc sent = run_on (execute svc) sent"
proof -
  have "bq_execute svc = submit (execute svc)"
    by (intro ext) (simp add: bq_execute_def submit_def)
  then show ?thesis
    by (simp only: run_def run_on_def screening_def screening_on_def)
qed

lemma run_on_requests:
  "\<exists>rest. snd (run_on bq sent) = sent @ count_request # rest \<and> (rest = [] \<or> (\<exists>cf. rest = [bq_request cf]))"
  "fst (run_on bq sent) = Inr df \<Longrightarrow> \<exists>cf. snd (run_on bq sent) = sent @ [count_request, bq_request cf]"
  "bq count_request = Inl e \<Longrightarrow> run_on bq sent = (Inl e, sent @ [count_request])"
  by (auto simp: run_on_def screening_on_def submit_def split: sum.splits)

lemma run_on_malformed:
  "run_on (\<lambda>rq. Inr []) [] = (Inl IndexError, [count_request])"
  "run_on (\<lambda>rq. Inr [\<lparr>sir_name = ''COUNT'', sir_df = [([], None)]\<rparr>]) [] = (Inl ValueError, [count_request])"
  by (simp_all add: run_on_def screening_on_def submit_def num_of_members_def threshold_rank_def)

subsection \<open>A universe without data\<close>


section \<open>The claims\<close>

text \<open>
  C1. For every universe and every assignment of the three factor rank vectors, an
  identifier is in the filtered universe iff it is in the universe and its rank in each
  of the three factors is at most the threshold rank; the filtered universe is the
  intersection of the three single-factor pass sets and a subset of the universe.
\<close>

theorem screening_filter_is_conjunction:
  assumes us: "us = univ_members svc ''UKX Index''"
    and r1: "eval svc us fr1 = Inr r1" and r2: "eval svc us fr2 = Inr r2" and r3: "eval svc us fr3 = Inr r3"
  shows "\<exists>t F P1 P2 P3.
      (\<exists>bq_res num. service_answer svc count_request = Inr bq_res \<and> num_of_members bq_res = Inr num \<and>
         threshold_rank p num = Inr t) \<and>
      screened p [fr1, fr2, fr3] svc = Inr F \<and>
      (\<forall>i. i \<in> set F \<longleftrightarrow> i \<in> set us \<and> (\<exists>k. r1 i = Some k \<and> k \<le> real_of_int t) \<and>
             (\<exists>k. r2 i = Some k \<and> k \<le> real_of_int t) \<and> (\<exists>k. r3 i = Some k \<and> k \<le> real_of_int t)) \<and>
      screened p [fr1] svc = Inr P1 \<and> screened p [fr2] svc = Inr P2 \<and> screened p [fr3] svc = Inr P3 \<and>
      (\<forall>i. i \<in> set P1 \<longleftrightarrow> i \<in> set us \<and> (\<exists>k. r1 i = Some k \<and> k \<le> real_of_int t)) \<and>
      (\<forall>i. i \<in> set P2 \<longleftrightarrow> i \<in> set us \<and> (\<exists>k. r2 i = Some k \<and> k \<le> real_of_int t)) \<and>
      (\<forall>i. i \<in> set P3 \<longleftrightarrow> i \<in> set us \<and> (\<exists>k. r3 i = Some k \<and> k \<le> real_of_int t)) \<and>
      set F = set P1 \<inter> set P2 \<inter> set P3 \<and> set F \<subseteq> set us"
proof -
  let ?t = "py_int (round_double (p * real (length us)))"
  have F: "screened p [fr1, fr2, fr3] svc = Inr (filter (\<lambda>i. list_all (\<lambda>r. bql_le (r i) ?t) [r1, r2, r3]) us)"
    using screened_eq [where svc=svc and frs="[fr2, fr3]" and rs="[r2, r3]" and fr=fr1 and r=r1 and p=p] r1 r2 r3 us by simp
  have P1: "screened p [fr1] svc = Inr (filter (\<lambda>i. list_all (\<lambda>r. bql_le (r i) ?t) [r1]) us)"
    using screened_eq [where svc=svc and frs="[]" and rs="[]" and fr=fr1 and r=r1 and p=p] r1 us by simp
  have P2: "screened p [fr2] svc = Inr (filter (\<lambda>i. list_all (\<lambda>r. bql_le (r i) ?t) [r2]) us)"
    using screened_eq [where svc=svc and frs="[]" and rs="[]" and fr=fr2 and r=r2 and p=p] r2 us by simp
  have P3: "screened p [fr3] svc = Inr (filter (\<lambda>i. list_all (\<lambda>r. bql_le (r i) ?t) [r3]) us)"
    using screened_eq [where svc=svc and frs="[]" and rs="[]" and fr=fr3 and r=r3 and p=p] r3 us by simp
  have T: "\<exists>bq_res num. service_answer svc count_request = Inr bq_res \<and> num_of_members bq_res = Inr num \<and>
         threshold_rank p num = Inr ?t"
    using threshold_of_count [of svc p] us by simp
  show ?thesis
    apply (rule exI [of _ ?t])
    apply (rule exI [of _ "filter (\<lambda>i. list_all (\<lambda>r. bql_le (r i) ?t) [r1, r2, r3]) us"])
    apply (rule exI [of _ "filter (\<lambda>i. list_all (\<lambda>r. bql_le (r i) ?t) [r1]) us"])
    apply (rule exI [of _ "filter (\<lambda>i. list_all (\<lambda>r. bql_le (r i) ?t) [r2]) us"])
    apply (rule exI [of _ "filter (\<lambda>i. list_all (\<lambda>r. bql_le (r i) ?t) [r3]) us"])
    apply (simp only: F P1 P2 P3 T simp_thms)
    apply (auto simp: bql_le_iff)
    done
qed

theorem screening_filter_is_conjunction_witness:
  "\<exists>r1 r2 r3.
     eval example (univ_members example ''UKX Index'') (rank_func bq_avg_roe_2y) = Inr r1 \<and>
     eval example (univ_members example ''UKX Index'') (rank_func bq_px_to_book) = Inr r2 \<and>
     eval example (univ_members example ''UKX Index'') (rank_func bq_cash_per_asset) = Inr r3 \<and>
     (\<exists>t F. screened threshold_percentage
               [rank_func bq_avg_roe_2y, rank_func bq_px_to_book, rank_func bq_cash_per_asset] example = Inr F \<and>
        (\<forall>i. i \<in> set F \<longleftrightarrow> i \<in> set (univ_members example ''UKX Index'') \<and>
             (\<exists>k. r1 i = Some k \<and> k \<le> real_of_int t) \<and>
             (\<exists>k. r2 i = Some k \<and> k \<le> real_of_int t) \<and> (\<exists>k. r3 i = Some k \<and> k \<le> real_of_int t)))"
proof -
  obtain r1 where r1: "eval example (univ_members example ''UKX Index'') (rank_func bq_avg_roe_2y) = Inr r1"
    using example_rank_roe by (auto simp: example_univ)
  obtain r2 where r2: "eval example (univ_members example ''UKX Index'') (rank_func bq_px_to_book) = Inr r2"
    using example_rank_px by (auto simp: example_univ)
  obtain r3 where r3: "eval example (univ_members example ''UKX Index'') (rank_func bq_cash_per_asset) = Inr r3"
    using example_rank_cash by (auto simp: example_univ)
  from screening_filter_is_conjunction [OF refl r1 r2 r3, of threshold_percentage]
  have "\<exists>t F. screened threshold_percentage
               [rank_func bq_avg_roe_2y, rank_func bq_px_to_book, rank_func bq_cash_per_asset] example = Inr F \<and>
        (\<forall>i. i \<in> set F \<longleftrightarrow> i \<in> set (univ_members example ''UKX Index'') \<and>
             (\<exists>k. r1 i = Some k \<and> k \<le> real_of_int t) \<and>
             (\<exists>k. r2 i = Some k \<and> k \<le> real_of_int t) \<and> (\<exists>k. r3 i = Some k \<and> k \<le> real_of_int t))"
    by blast
  with r1 r2 r3 show ?thesis by blast
qed

text \<open>
  C4. The screening filter is monotonic in the threshold percentage: for a fixed universe
  and fixed factor rank vectors, and two percentages \<open>p1 \<le> p2\<close>, the filtered set for
  \<open>p1\<close> is a subset of the filtered set for \<open>p2\<close>.
\<close>

theorem threshold_monotone:
  assumes us: "us = univ_members svc ''UKX Index''"
    and r1: "eval svc us fr1 = Inr r1" and r2: "eval svc us fr2 = Inr r2" and r3: "eval svc us fr3 = Inr r3"
    and le: "p1 \<le> p2"
  shows "\<exists>F1 F2. screened p1 [fr1, fr2, fr3] svc = Inr F1 \<and> screened p2 [fr1, fr2, fr3] svc = Inr F2 \<and>
           set F1 \<subseteq> set F2"
proof -
  let ?t = "\<lambda>p. py_int (round_double (p * real (length us)))"
  have F: "screened p [fr1, fr2, fr3] svc = Inr (filter (\<lambda>i. list_all (\<lambda>r. bql_le (r i) (?t p)) [r1, r2, r3]) us)" for p
    using screened_eq [where svc=svc and frs="[fr2, fr3]" and rs="[r2, r3]" and fr=fr1 and r=r1 and p=p] r1 r2 r3 us by simp
  have "p1 * real (length us) \<le> p2 * real (length us)"
    using le by (simp add: mult_right_mono)
  then have "round_double (p1 * real (length us)) \<le> round_double (p2 * real (length us))"
    by (rule round_double_mono)
  then have "?t p1 \<le> ?t p2" by (rule py_int_mono)
  then have "bql_le a (?t p1) \<Longrightarrow> bql_le a (?t p2)" for a
    by (auto simp: bql_le_iff)
  then show ?thesis
    by (auto simp: F)
qed

theorem threshold_monotone_witness:
  "(1 / 2 :: real) \<le> 80 / 100 \<and>
   (\<exists>F1 F2. screened (1 / 2) [rank_func bq_avg_roe_2y, rank_func bq_px_to_book, rank_func bq_cash_per_asset] example = Inr F1 \<and>
      screened (80 / 100) [rank_func bq_avg_roe_2y, rank_func bq_px_to_book, rank_func bq_cash_per_asset] example = Inr F2 \<and>
      set F1 \<subseteq> set F2)"
proof -
  obtain r1 where r1: "eval example (univ_members example ''UKX Index'') (rank_func bq_avg_roe_2y) = Inr r1"
    using example_rank_roe by (auto simp: example_univ)
  obtain r2 where r2: "eval example (univ_members example ''UKX Index'') (rank_func bq_px_to_book) = Inr r2"
    using example_rank_px by (auto simp: example_univ)
  obtain r3 where r3: "eval example (univ_members example ''UKX Index'') (rank_func bq_cash_per_asset) = Inr r3"
    using example_rank_cash by (auto simp: example_univ)
  have le: "(1 / 2 :: real) \<le> 80 / 100" by simp
  from threshold_monotone [OF refl r1 r2 r3 le] le show ?thesis by simp
qed




text \<open>
  C10. For a universe of size \<open>N \<ge> 1\<close> whose ranks for a factor are a permutation of
  \<open>1..N\<close>, the criterion \<open>rank \<le> threshold_rank\<close> of that factor alone is satisfied by
  exactly \<open>int(0.80 * N)\<close> identifiers, the threshold rank the program computes from
  the count request, and excludes the other \<open>N - int(0.80 * N)\<close>. For \<open>N\<close> below \<open>2 ^ 50\<close>
  the product of doubles has the floor of the exact product, so that \<open>4N div 5\<close> pass and
  at least a fifth of the universe (and less than a fifth plus one) is excluded.
\<close>

theorem single_factor_pass_count:
  assumes us: "us = univ_members svc ''UKX Index''"
    and dist: "distinct us" and n: "1 \<le> length us"
    and r: "eval svc us fr = Inr r"
    and bij: "bij_betw \<rho> (set us) {1..length us}"
    and rk: "\<forall>i\<in>set us. r i = Some (real (\<rho> i))"
  shows "\<exists>F t. screened threshold_percentage [fr] svc = Inr F \<and>
           (\<exists>bq_res num. service_answer svc count_request = Inr bq_res \<and> num_of_members bq_res = Inr num \<and>
              threshold_rank threshold_percentage num = Inr (int t)) \<and>
           length F = t \<and> length (filter (\<lambda>i. i \<notin> set F) us) = length us - t \<and>
           (length us < 2 ^ 50 \<longrightarrow>
              int (length F) = \<lfloor>80 / 100 * real (length us)\<rfloor> \<and>
              length (filter (\<lambda>i. i \<notin> set F) us) = length us - (4 * length us) div 5 \<and>
              length us \<le> 5 * length (filter (\<lambda>i. i \<notin> set F) us) \<and>
              5 * length (filter (\<lambda>i. i \<notin> set F) us) < length us + 5)"
proof -
  let ?n = "length us"
  let ?T = "py_int (round_double (threshold_percentage * real ?n))"
  define t where "t = nat ?T"
  have T: "?T = int t" using py_int_threshold_ge [of ?n] by (simp add: t_def)
  have tn: "t \<le> ?n" using py_int_threshold_le [of ?n] by (simp add: t_def)
  let ?F = "filter (\<lambda>i. \<rho> i \<le> t) us"
  have "screened threshold_percentage [fr] svc = Inr (filter (\<lambda>i. list_all (\<lambda>r. bql_le (r i) (int t)) [r]) us)"
    using screened_eq [where svc=svc and frs="[]" and rs="[]" and fr=fr and r=r and p=threshold_percentage] r us
    by (simp add: T [unfolded us])
  moreover have "filter (\<lambda>i. list_all (\<lambda>r. bql_le (r i) (int t)) [r]) us = ?F"
    by (rule filter_cong) (use rk in \<open>auto simp: bql_le_def\<close>)
  ultimately have F: "screened threshold_percentage [fr] svc = Inr ?F" by simp
  have thr: "\<exists>bq_res num. service_answer svc count_request = Inr bq_res \<and> num_of_members bq_res = Inr num \<and>
              threshold_rank threshold_percentage num = Inr (int t)"
    using threshold_of_count [of svc threshold_percentage] by (simp only: us [symmetric] T)
  have "length ?F = card {i \<in> set us. \<rho> i \<le> t}"
    using dist by (simp add: distinct_length_filter Int_def conj_commute)
  also have "\<dots> = t" by (rule card_bij_le [OF bij tn])
  finally have len: "length ?F = t" .
  have "length (filter (\<lambda>i. i \<notin> set ?F) us) = length (filter (\<lambda>i. \<not> \<rho> i \<le> t) us)"
    by (rule arg_cong [where f=length], rule filter_cong) auto
  also have "\<dots> = ?n - length ?F"
    using sum_length_filter_compl [of "\<lambda>i. \<rho> i \<le> t" us] by simp
  finally have ex: "length (filter (\<lambda>i. i \<notin> set ?F) us) = ?n - t" using len by simp
  have small: "?n < 2 ^ 50 \<longrightarrow> int (length ?F) = \<lfloor>80 / 100 * real ?n\<rfloor> \<and>
      length (filter (\<lambda>i. i \<notin> set ?F) us) = ?n - (4 * ?n) div 5 \<and>
      ?n \<le> 5 * length (filter (\<lambda>i. i \<notin> set ?F) us) \<and>
      5 * length (filter (\<lambda>i. i \<notin> set ?F) us) < ?n + 5"
  proof (rule impI)
    assume n50: "?n < 2 ^ 50"
    from py_int_threshold [OF n50] T have t: "t = (4 * ?n) div 5" by simp
    have "int ((4 * ?n) div 5) = \<lfloor>80 / 100 * real ?n\<rfloor>" by (simp only: floor_four_fifths)
    moreover have "?n \<le> 5 * (?n - (4 * ?n) div 5)" "5 * (?n - (4 * ?n) div 5) < ?n + 5" by auto
    ultimately show "int (length ?F) = \<lfloor>80 / 100 * real ?n\<rfloor> \<and>
      length (filter (\<lambda>i. i \<notin> set ?F) us) = ?n - (4 * ?n) div 5 \<and>
      ?n \<le> 5 * length (filter (\<lambda>i. i \<notin> set ?F) us) \<and>
      5 * length (filter (\<lambda>i. i \<notin> set ?F) us) < ?n + 5"
      unfolding ex len unfolding t by (simp only: simp_thms)
  qed
  from F thr len ex small show ?thesis
    by (intro exI [of _ ?F] exI [of _ t]) (simp only: simp_thms)
qed

theorem single_factor_pass_count_witness:
  "distinct (univ_members example ''UKX Index'') \<and> 1 \<le> length (univ_members example ''UKX Index'') \<and>
   length (univ_members example ''UKX Index'') < 2 ^ 50 \<and>
   bij_betw example_rho (set (univ_members example ''UKX Index'')) {1..length (univ_members example ''UKX Index'')} \<and>
   (\<exists>r. eval example (univ_members example ''UKX Index'') (rank_func bq_avg_roe_2y) = Inr r \<and>
      (\<forall>i\<in>set (univ_members example ''UKX Index''). r i = Some (real (example_rho i)))) \<and>
   (\<exists>F. screened threshold_percentage [rank_func bq_avg_roe_2y] example = Inr F \<and> length F = 4 \<and>
      length (filter (\<lambda>i. i \<notin> set F) (univ_members example ''UKX Index'')) = 1)"
proof -
  let ?us = "univ_members example ''UKX Index''"
  have d: "distinct ?us" and n: "1 \<le> length ?us" and n50: "length ?us < 2 ^ 50"
    by (simp_all add: example_univ example_members_def)
  have b: "bij_betw example_rho (set ?us) {1..length ?us}"
    using example_rho_bij by (simp only: example_univ)
  obtain r where r: "eval example ?us (rank_func bq_avg_roe_2y) = Inr r"
    and m: "map r example_members = [Some 1, Some 2, Some 3, Some 4, Some 5]"
    using example_rank_roe unfolding example_univ by (elim exE conjE)
  have rk: "\<forall>i\<in>set ?us. r i = Some (real (example_rho i))"
    using m by (simp add: example_univ example_members_def example_rho_def)
  from single_factor_pass_count [OF refl d n r b rk] n50
  obtain F where F: "screened threshold_percentage [rank_func bq_avg_roe_2y] example = Inr F"
    "int (length F) = \<lfloor>80 / 100 * real (length ?us)\<rfloor>"
    "length (filter (\<lambda>i. i \<notin> set F) ?us) = length ?us - (4 * length ?us) div 5"
    by blast
  have l: "length ?us = 5" by (simp add: example_univ example_members_def)
  from F(2) have "length F = 4" by (simp add: l)
  moreover from F(3) have "length (filter (\<lambda>i. i \<notin> set F) ?us) = 1" by (simp add: l)
  ultimately show ?thesis using d n n50 b r rk F(1) by blast
qed

text \<open>
  C6. For every identifier the three factor values are the specified formulas: price to
  book is the last price divided by the book value per share, the 2-year average ROE is
  the sum of the ROE at the fiscal-year offsets -1 and -2 divided by 2, and cash per asset
  is the trailing-twelve-month operating cash flow divided by the trailing-twelve-month
  total assets.
\<close>

theorem factor_values_follow_formulas:
  "\<exists>x_pb x_roe x_cpa.
     eval svc us bq_px_to_book = Inr x_pb \<and> eval svc us bq_avg_roe_2y = Inr x_roe \<and>
     eval svc us bq_cash_per_asset = Inr x_cpa \<and>
     (\<forall>i px bv. data_field svc ''px_last'' [(''fill'', ''PREV''), (''currency'', ''GBP'')] i = Some px \<longrightarrow>
        data_field svc ''book_val_per_sh'' [(''fa_period_type'', ''LTM''), (''currency'', ''GBP'')] i = Some bv \<longrightarrow>
        bv \<noteq> 0 \<longrightarrow> x_pb i = Some (px / bv)) \<and>
     (\<forall>i roe1 roe2. data_field svc ''return_com_eqy'' [(''fa_period_offset'', ''-1'')] i = Some roe1 \<longrightarrow>
        data_field svc ''return_com_eqy'' [(''fa_period_offset'', ''-2'')] i = Some roe2 \<longrightarrow>
        x_roe i = Some ((roe1 + roe2) / 2)) \<and>
     (\<forall>i cfo ta. data_field svc ''cf_cash_from_oper'' [(''fa_period_type'', ''LTM'')] i = Some cfo \<longrightarrow>
        data_field svc ''bs_tot_asset'' [(''fa_period_type'', ''LTM'')] i = Some ta \<longrightarrow>
        ta \<noteq> 0 \<longrightarrow> x_cpa i = Some (cfo / ta))"
  by (simp add: eval_avg_roe_2y eval_px_to_book eval_cash_per_asset bql_div_def bql_add_def bql_div_num_def)

theorem factor_values_follow_formulas_witness:
  "data_field example ''px_last'' [(''fill'', ''PREV''), (''currency'', ''GBP'')] ''A'' = Some 6 \<and>
   data_field example ''book_val_per_sh'' [(''fa_period_type'', ''LTM''), (''currency'', ''GBP'')] ''A'' = Some 2 \<and>
   (2::real) \<noteq> 0 \<and>
   data_field example ''return_com_eqy'' [(''fa_period_offset'', ''-1'')] ''A'' = Some 0 \<and>
   data_field example ''return_com_eqy'' [(''fa_period_offset'', ''-2'')] ''A'' = Some 2 \<and>
   data_field example ''cf_cash_from_oper'' [(''fa_period_type'', ''LTM'')] ''A'' = Some 50 \<and>
   data_field example ''bs_tot_asset'' [(''fa_period_type'', ''LTM'')] ''A'' = Some 10 \<and>
   (10::real) \<noteq> 0 \<and>
   (\<exists>x_pb x_roe x_cpa.
     eval example example_members bq_px_to_book = Inr x_pb \<and> eval example example_members bq_avg_roe_2y = Inr x_roe \<and>
     eval example example_members bq_cash_per_asset = Inr x_cpa \<and>
     x_pb ''A'' = Some (6 / 2) \<and> x_roe ''A'' = Some ((0 + 2) / 2) \<and> x_cpa ''A'' = Some (50 / 10))"
proof -
  have d: "data_field example ''px_last'' [(''fill'', ''PREV''), (''currency'', ''GBP'')] ''A'' = Some 6"
    "data_field example ''book_val_per_sh'' [(''fa_period_type'', ''LTM''), (''currency'', ''GBP'')] ''A'' = Some 2"
    "data_field example ''return_com_eqy'' [(''fa_period_offset'', ''-1'')] ''A'' = Some 0"
    "data_field example ''return_com_eqy'' [(''fa_period_offset'', ''-2'')] ''A'' = Some 2"
    "data_field example ''cf_cash_from_oper'' [(''fa_period_type'', ''LTM'')] ''A'' = Some 50"
    "data_field example ''bs_tot_asset'' [(''fa_period_type'', ''LTM'')] ''A'' = Some 10"
    by (simp_all add: example_def example_data_def)
  from factor_values_follow_formulas [of example example_members]
  obtain x_pb x_roe x_cpa where
    e: "eval example example_members bq_px_to_book = Inr x_pb" "eval example example_members bq_avg_roe_2y = Inr x_roe"
      "eval example example_members bq_cash_per_asset = Inr x_cpa"
    and pb: "\<And>i px bv. data_field example ''px_last'' [(''fill'', ''PREV''), (''currency'', ''GBP'')] i = Some px \<Longrightarrow>
        data_field example ''book_val_per_sh'' [(''fa_period_type'', ''LTM''), (''currency'', ''GBP'')] i = Some bv \<Longrightarrow>
        bv \<noteq> 0 \<Longrightarrow> x_pb i = Some (px / bv)"
    and roe: "\<And>i roe1 roe2. data_field example ''return_com_eqy'' [(''fa_period_offset'', ''-1'')] i = Some roe1 \<Longrightarrow>
        data_field example ''return_com_eqy'' [(''fa_period_offset'', ''-2'')] i = Some roe2 \<Longrightarrow>
        x_roe i = Some ((roe1 + roe2) / 2)"
    and cpa: "\<And>i cfo ta. data_field example ''cf_cash_from_oper'' [(''fa_period_type'', ''LTM'')] i = Some cfo \<Longrightarrow>
        data_field example ''bs_tot_asset'' [(''fa_period_type'', ''LTM'')] i = Some ta \<Longrightarrow>
        ta \<noteq> 0 \<Longrightarrow> x_cpa i = Some (cfo / ta)"
    by blast
  have "x_pb ''A'' = Some (6 / 2)" by (rule pb [OF d(1) d(2)]) simp
  moreover have "x_roe ''A'' = Some ((0 + 2) / 2)" by (rule roe [OF d(3) d(4)])
  moreover have "x_cpa ''A'' = Some (50 / 10)" by (rule cpa [OF d(5) d(6)]) simp
  ultimately show ?thesis using d e by (intro conjI exI [of _ x_pb] exI [of _ x_roe] exI [of _ x_cpa]) simp_all
qed

text \<open>
  C7. The result table of a run has one row per identifier of the filtered universe, in
  its order; its cells are the raw factor values of the identifier, not its ranks; its
  columns are average ROE, price to book and cash per asset, in this order.
\<close>

theorem result_table_is_filtered_factors:
  assumes "fst (run svc sent) = Inr df"
  shows "\<exists>F x_roe x_pb x_cpa.
     screened threshold_percentage factor_ranks svc = Inr F \<and>
     eval svc (univ_members svc ''UKX Index'') bq_avg_roe_2y = Inr x_roe \<and>
     eval svc (univ_members svc ''UKX Index'') bq_px_to_book = Inr x_pb \<and>
     eval svc (univ_members svc ''UKX Index'') bq_cash_per_asset = Inr x_cpa \<and>
     map fst (df_rows df) = F \<and>
     df_columns df = [''AVE_ROE_2Y'', ''PX_BOOK_VALUE'', ''CASH_PER_ASSET''] \<and>
     df_rows df = map (\<lambda>i. (i, [x_roe i, x_pb i, x_cpa i])) F"
proof -
  from run_table [OF assms] obtain F x_roe x_pb x_cpa where
    F: "screened threshold_percentage factor_ranks svc = Inr F"
    and e: "eval svc (univ_members svc ''UKX Index'') bq_avg_roe_2y = Inr x_roe"
       "eval svc (univ_members svc ''UKX Index'') bq_px_to_book = Inr x_pb"
       "eval svc (univ_members svc ''UKX Index'') bq_cash_per_asset = Inr x_cpa"
    and df: "df = \<lparr>df_columns = [''AVE_ROE_2Y'', ''PX_BOOK_VALUE'', ''CASH_PER_ASSET''],
                       df_rows = map (\<lambda>i. (i, [x_roe i, x_pb i, x_cpa i])) F\<rparr>"
    by blast
  have "map fst (df_rows df) = F" by (simp add: df comp_def)
  with e F df show ?thesis by simp
qed

theorem result_table_is_filtered_factors_witness:
  "fst (run example []) =
     Inr \<lparr>df_columns = [''AVE_ROE_2Y'', ''PX_BOOK_VALUE'', ''CASH_PER_ASSET''],
          df_rows = [(''A'', [Some 1, Some 3, Some 5]), (''B'', [Some 3, Some 1, Some 4]),
                     (''C'', [Some 4, Some 4, Some 3])]\<rparr> \<and>
   (\<exists>F x_roe x_pb x_cpa.
     screened threshold_percentage factor_ranks example = Inr F \<and>
     eval example (univ_members example ''UKX Index'') bq_avg_roe_2y = Inr x_roe \<and>
     eval example (univ_members example ''UKX Index'') bq_px_to_book = Inr x_pb \<and>
     eval example (univ_members example ''UKX Index'') bq_cash_per_asset = Inr x_cpa \<and>
     F = [''A'', ''B'', ''C''] \<and>
     [(''A'', [Some 1, Some 3, Some 5]), (''B'', [Some 3, Some 1, Some 4]), (''C'', [Some 4, Some 4, Some 3])]
       = map (\<lambda>i. (i, [x_roe i, x_pb i, x_cpa i])) F)"
  using result_table_is_filtered_factors [OF example_run] example_run
  by (simp add: example_screened)

text \<open>
  C9, as the script has it. A run has no effect but its requests to the data service:
  the requests sent before are as they were, the count request comes first and at most
  one more follows, a screening request. A run that returns a table has submitted
  exactly these two; a run whose count request fails has submitted only that one. This
  holds against any \<^verbatim>\<open>bq.execute\<close>, whatever it answers, and the run on a service is
  the run against the \<^verbatim>\<open>execute\<close> of that service.
\<close>

theorem run_submits_at_most_two_requests:
  "run svc sent = run_on (execute svc) sent \<and>
   (\<exists>rest. snd (run_on bq sent) = sent @ count_request # rest \<and> (rest = [] \<or> (\<exists>cf. rest = [bq_request cf]))) \<and>
   (\<forall>df. fst (run_on bq sent) = Inr df \<longrightarrow> (\<exists>cf. snd (run_on bq sent) = sent @ [count_request, bq_request cf])) \<and>
   (\<forall>e. bq count_request = Inl e \<longrightarrow> run_on bq sent = (Inl e, sent @ [count_request]))"
  using run_on_execute [of svc sent] run_on_requests [where bq=bq and sent=sent] by blast

theorem run_submits_at_most_two_requests_witness:
  "fst (run example []) =
     Inr \<lparr>df_columns = [''AVE_ROE_2Y'', ''PX_BOOK_VALUE'', ''CASH_PER_ASSET''],
          df_rows = [(''A'', [Some 1, Some 3, Some 5]), (''B'', [Some 3, Some 1, Some 4]),
                     (''C'', [Some 4, Some 4, Some 3])]\<rparr> \<and>
   (\<exists>cf. snd (run example []) = [count_request, bq_request cf]) \<and>
   execute example_down count_request = Inl ServiceError \<and>
   run example_down [] = (Inl ServiceError, [count_request]) \<and>
   run_on (\<lambda>rq. Inr []) [] = (Inl IndexError, [count_request])"
proof -
  from run_submits_at_most_two_requests [of example "[]" "execute example"] example_run
  have a: "\<exists>cf. snd (run example []) = [count_request, bq_request cf]" by simp
  have d: "execute example_down count_request = Inl ServiceError"
    by (simp add: execute_cases example_down_def)
  from run_submits_at_most_two_requests [of example_down "[]" "execute example_down"] d
  have b: "run example_down [] = (Inl ServiceError, [count_request])" by simp
  from a b d example_run run_on_malformed(1) show ?thesis by (simp only: simp_thms)
qed

text \<open>
  C9, as the claim states it, fails: the run of the worked example submits two requests,
  which is more than one.
\<close>

theorem run_single_request_counterexample:
  "length (snd (run example [])) = 2 \<and> \<not> length (snd (run example [])) \<le> 1"
  by (simp add: run_requests(1) example_no_error)

text \<open>
  C8. The pipeline is deterministic: two runs on the same universe membership and the
  same factor values give the same filtered universe; they give the same outcome and
  submit the same requests if the service fails at the same requests, and the same
  result table and requests whenever both return one; the rank function gives the same
  ranks, or fails alike.
\<close>

theorem run_deterministic:
  assumes u1: "univ_members svc1 ''UKX Index'' = us" and u2: "univ_members svc2 ''UKX Index'' = us"
    and a: "eval svc1 us bq_avg_roe_2y = Inr a1" "eval svc2 us bq_avg_roe_2y = Inr a2" "\<forall>i\<in>set us. a1 i = a2 i"
    and b: "eval svc1 us bq_px_to_book = Inr b1" "eval svc2 us bq_px_to_book = Inr b2" "\<forall>i\<in>set us. b1 i = b2 i"
    and c: "eval svc1 us bq_cash_per_asset = Inr c1" "eval svc2 us bq_cash_per_asset = Inr c2" "\<forall>i\<in>set us. c1 i = c2 i"
  shows "screened threshold_percentage factor_ranks svc1 = screened threshold_percentage factor_ranks svc2 \<and>
         (service_error svc1 = service_error svc2 \<longrightarrow> run svc1 sent = run svc2 sent) \<and>
         (\<forall>df1 df2. fst (run svc1 sent) = Inr df1 \<longrightarrow> fst (run svc2 sent) = Inr df2 \<longrightarrow>
            df1 = df2 \<and> snd (run svc1 sent) = snd (run svc2 sent)) \<and>
         (\<forall>f\<in>{bq_avg_roe_2y, bq_px_to_book, bq_cash_per_asset}.
            map_sum id (\<lambda>r. map r us) (eval svc1 us (rank_func f)) =
            map_sum id (\<lambda>r. map r us) (eval svc2 us (rank_func f)))"
proof -
  let ?t = "py_int (round_double (threshold_percentage * real (length us)))"
  let ?rq = "bq_request (FuncAnd (FuncAnd (Le (rank_func bq_avg_roe_2y) ?t) (Le (rank_func bq_px_to_book) ?t))
                                 (Le (rank_func bq_cash_per_asset) ?t))"
  let ?tab = "\<lambda>a b c F. \<lparr>df_columns = [''AVE_ROE_2Y'', ''PX_BOOK_VALUE'', ''CASH_PER_ASSET''],
                           df_rows = map (\<lambda>i. (i, [a i, b i, c i])) F\<rparr>"
  have s: "screened threshold_percentage factor_ranks svc1 = screened threshold_percentage factor_ranks svc2"
    by (rule screened_cong [OF u1 u2 a b c])
  have tab: "?tab a1 b1 c1 F = ?tab a2 b2 c2 F" if "screened threshold_percentage factor_ranks svc1 = Inr F" for F
  proof -
    from screened_subset [OF that] u1 have sub: "set F \<subseteq> set us" by simp
    have "map (\<lambda>i. (i, [a1 i, b1 i, c1 i])) F = map (\<lambda>i. (i, [a2 i, b2 i, c2 i])) F"
      by (rule map_cong) (use sub a(3) b(3) c(3) in auto)
    then show ?thesis by simp
  qed
  have res: "(case screened threshold_percentage factor_ranks svc1 of Inl e \<Rightarrow> Inl e | Inr F \<Rightarrow> Inr (?tab a1 b1 c1 F)) =
             (case screened threshold_percentage factor_ranks svc2 of Inl e \<Rightarrow> Inl e | Inr F \<Rightarrow> Inr (?tab a2 b2 c2 F))"
  proof (cases "screened threshold_percentage factor_ranks svc1")
    case (Inl e)
    then show ?thesis using s by simp
  next
    case (Inr F)
    moreover from Inr s have "screened threshold_percentage factor_ranks svc2 = Inr F" by simp
    ultimately show ?thesis using tab [OF Inr] by (simp only: sum.case)
  qed
  have same: "run svc1 sent = run svc2 sent" if eq: "service_error svc1 = service_error svc2"
  proof (cases "service_error svc1 count_request")
    case (Some e)
    then have "service_error svc2 count_request = Some e" using eq by simp
    with Some show ?thesis by (simp add: run_requests(2))
  next
    case None
    then have n2: "service_error svc2 count_request = None" using eq by simp
    show ?thesis
    proof (cases "service_error svc1 ?rq")
      case (Some e)
      then have "service_error svc2 ?rq = Some e" using eq by simp
      from run_cases(1) [of svc1 e sent] run_cases(1) [of svc2 e sent] None n2 Some this
      show ?thesis by (simp add: u1 u2)
    next
      case none: None
      then have "service_error svc2 ?rq = None" using eq by simp
      from run_cases(2) [of svc1 a1 b1 c1 sent] run_cases(2) [of svc2 a2 b2 c2 sent] None n2 none this
        a(1,2) b(1,2) c(1,2)
      have "run svc1 sent = ((case screened threshold_percentage factor_ranks svc1 of Inl e \<Rightarrow> Inl e
                               | Inr F \<Rightarrow> Inr (?tab a1 b1 c1 F)), sent @ [count_request, ?rq])"
        and "run svc2 sent = ((case screened threshold_percentage factor_ranks svc2 of Inl e \<Rightarrow> Inl e
                               | Inr F \<Rightarrow> Inr (?tab a2 b2 c2 F)), sent @ [count_request, ?rq])"
        by (simp_all add: u1 u2)
      then show ?thesis by (simp only: res)
    qed
  qed
  have both: "df1 = df2 \<and> snd (run svc1 sent) = snd (run svc2 sent)"
    if d1: "fst (run svc1 sent) = Inr df1" and d2: "fst (run svc2 sent) = Inr df2" for df1 df2
  proof -
    from run_table [OF d1] a(1) b(1) c(1) u1 obtain F1 where
      F1: "screened threshold_percentage factor_ranks svc1 = Inr F1" and t1: "df1 = ?tab a1 b1 c1 F1"
      by auto
    from run_table [OF d2] a(2) b(2) c(2) u2 obtain F2 where
      F2: "screened threshold_percentage factor_ranks svc2 = Inr F2" and t2: "df2 = ?tab a2 b2 c2 F2"
      by auto
    from F1 F2 s have "F2 = F1" by simp
    with t1 t2 tab [OF F1] have "df1 = df2" by simp
    moreover have "snd (run svc1 sent) = snd (run svc2 sent)"
      using run_requests(3) [OF d1] run_requests(3) [OF d2] by (simp add: u1 u2)
    ultimately show ?thesis by simp
  qed
  have k: "\<forall>f\<in>{bq_avg_roe_2y, bq_px_to_book, bq_cash_per_asset}.
            map_sum id (\<lambda>r. map r us) (eval svc1 us (rank_func f)) =
            map_sum id (\<lambda>r. map r us) (eval svc2 us (rank_func f))"
    using rank_func_cong_map [OF a] rank_func_cong_map [OF b] rank_func_cong_map [OF c] by simp
  from s same both k show ?thesis by blast
qed

theorem run_deterministic_witness:
  "univ_members example ''UKX Index'' = example_members \<and> univ_members example_alt ''UKX Index'' = example_members \<and>
   (\<exists>a1 a2 b1 b2 c1 c2.
      eval example example_members bq_avg_roe_2y = Inr a1 \<and> eval example_alt example_members bq_avg_roe_2y = Inr a2 \<and>
      (\<forall>i\<in>set example_members. a1 i = a2 i) \<and>
      eval example example_members bq_px_to_book = Inr b1 \<and> eval example_alt example_members bq_px_to_book = Inr b2 \<and>
      (\<forall>i\<in>set example_members. b1 i = b2 i) \<and>
      eval example example_members bq_cash_per_asset = Inr c1 \<and> eval example_alt example_members bq_cash_per_asset = Inr c2 \<and>
      (\<forall>i\<in>set example_members. c1 i = c2 i)) \<and>
   example \<noteq> example_alt \<and> service_error example = service_error example_alt \<and>
   screened threshold_percentage factor_ranks example = screened threshold_percentage factor_ranks example_alt \<and>
   run example [] = run example_alt [] \<and>
   (\<exists>df. fst (run example []) = Inr df \<and> fst (run example_alt []) = Inr df)"
proof -
  have u: "univ_members example ''UKX Index'' = example_members" "univ_members example_alt ''UKX Index'' = example_members"
    by (simp_all add: example_def example_alt_def)
  obtain a1 a2 where a: "eval example example_members bq_avg_roe_2y = Inr a1" "eval example_alt example_members bq_avg_roe_2y = Inr a2"
    "\<forall>i\<in>set example_members. a1 i = a2 i"
    by (simp add: eval_avg_roe_2y example_def example_alt_def example_data_def)
  obtain b1 b2 where b: "eval example example_members bq_px_to_book = Inr b1" "eval example_alt example_members bq_px_to_book = Inr b2"
    "\<forall>i\<in>set example_members. b1 i = b2 i"
    by (simp add: eval_px_to_book example_def example_alt_def example_data_def example_members_def bql_div_def)
  obtain c1 c2 where c: "eval example example_members bq_cash_per_asset = Inr c1" "eval example_alt example_members bq_cash_per_asset = Inr c2"
    "\<forall>i\<in>set example_members. c1 i = c2 i"
    by (simp add: eval_cash_per_asset example_def example_alt_def example_data_def)
  have ne: "example \<noteq> example_alt"
  proof
    assume "example = example_alt"
    then have "univ_members example [] = univ_members example_alt []" by simp
    then show False by (simp add: example_def example_alt_def)
  qed
  have se: "service_error example = service_error example_alt"
    by (simp add: example_def example_alt_def)
  from run_deterministic [OF u a b c, of "[]"] se
  have s: "screened threshold_percentage factor_ranks example = screened threshold_percentage factor_ranks example_alt"
    and r: "run example [] = run example_alt []"
    by blast+
  from r example_run have "\<exists>df. fst (run example []) = Inr df \<and> fst (run example_alt []) = Inr df"
    by simp
  with u a b c ne se s r show ?thesis by blast
qed

text \<open>
  C3. For a universe of \<open>N \<ge> 1\<close> distinct identifiers and a factor whose values are
  pairwise distinct and not missing, the rank function (standardize, then rank
  ascending) succeeds and gives the identifiers the ranks \<open>1..N\<close> bijectively, in the
  order of the standardized values; rank 1 goes to the lowest standardized value.
\<close>

theorem rank_is_bijection:
  assumes ne: "us \<noteq> []" and dist: "distinct us"
    and x: "eval svc us factor = Inr x"
    and pres: "\<forall>i\<in>set us. \<exists>v. x i = Some v"
    and inj: "inj_on x (set us)"
  shows "\<exists>z r \<zeta> \<rho>.
           eval svc us (Znav (Group factor)) = Inr z \<and> (\<forall>i\<in>set us. z i = Some (\<zeta> i)) \<and>
           eval svc us (rank_func factor) = Inr r \<and> (\<forall>i\<in>set us. r i = Some (real (\<rho> i))) \<and>
           bij_betw \<rho> (set us) {1..length us} \<and>
           (\<forall>i\<in>set us. \<forall>j\<in>set us. \<zeta> i < \<zeta> j \<longleftrightarrow> \<rho> i < \<rho> j) \<and>
           (\<forall>i\<in>set us. \<rho> i = 1 \<longleftrightarrow> (\<forall>j\<in>set us. \<zeta> i \<le> \<zeta> j))"
proof -
  define \<xi> where "\<xi> = (\<lambda>i. the (x i))"
  have xi: "\<forall>i\<in>set us. x i = Some (\<xi> i)"
    using pres by (auto simp: \<xi>_def)
  have inj_xi: "inj_on \<xi> (set us)"
  proof (rule inj_onI)
    fix i j assume i: "i \<in> set us" and j: "j \<in> set us" and eq: "\<xi> i = \<xi> j"
    with xi have "x i = x j" by simp
    with inj i j show "i = j" by (simp add: inj_on_def)
  qed
  have pxs: "present (map x us) = map \<xi> us"
    by (rule present_map_Some [OF xi])
  define m where "m = mean (map \<xi> us)"
  define s where "s = stdev (map \<xi> us)"
  define \<zeta> where "\<zeta> = (\<lambda>i. if s = 0 then 0 else (\<xi> i - m) / s)"
  define z where "z = (\<lambda>i. case x i of None \<Rightarrow> None | Some v \<Rightarrow> Some (if s = 0 then 0 else (v - m) / s))"
  have znav: "bql_znav us x = Inr z"
    unfolding bql_znav_def Let_def pxs z_def m_def s_def using ne by simp
  have zz: "\<forall>i\<in>set us. z i = Some (\<zeta> i)"
    using xi by (simp add: z_def \<zeta>_def)
  have inj_zeta: "inj_on \<zeta> (set us)"
  proof (rule inj_onI)
    fix i j assume i: "i \<in> set us" and j: "j \<in> set us" and eq: "\<zeta> i = \<zeta> j"
    have "\<xi> i = \<xi> j"
    proof (cases "s = 0")
      case True
      have n: "map \<xi> us \<noteq> []" using ne by simp
      have s0: "stdev (map \<xi> us) = 0" using True by (simp add: s_def)
      have mi: "\<xi> i \<in> set (map \<xi> us)" and mj: "\<xi> j \<in> set (map \<xi> us)" using i j by simp_all
      have "\<xi> i = mean (map \<xi> us)" by (rule stdev_zero_all_mean [OF s0 n mi])
      moreover have "\<xi> j = mean (map \<xi> us)" by (rule stdev_zero_all_mean [OF s0 n mj])
      ultimately show ?thesis by simp
    next
      case False
      with eq show ?thesis by (simp add: \<zeta>_def)
    qed
    with inj_xi i j show "i = j" by (simp add: inj_on_def)
  qed
  define Z where "Z = \<zeta> ` set us"
  have finZ: "finite Z" by (simp add: Z_def)
  have cardZ: "card Z = length us"
    using inj_zeta dist by (simp add: Z_def card_image distinct_card)
  have pzs: "present (map z us) = map \<zeta> us"
    by (rule present_map_Some [OF zz])
  define \<rho> where "\<rho> = (\<lambda>i. Suc (card {y \<in> Z. y < \<zeta> i}))"
  have len: "length (remdups (filter (\<lambda>y. y < v) (map \<zeta> us))) = card {y \<in> Z. y < v}" for v
  proof -
    have "set (filter (\<lambda>y. y < v) (map \<zeta> us)) = {y \<in> Z. y < v}"
      by (auto simp: Z_def)
    then show ?thesis by (simp only: length_remdups_card_conv)
  qed
  have rk: "\<forall>i\<in>set us. bql_rank us z i = Some (real (\<rho> i))"
    using zz by (simp add: bql_rank_def pzs len \<rho>_def)
  have e1: "eval svc us (Znav (Group factor)) = Inr z"
    by (simp add: x znav)
  have e2: "eval svc us (rank_func factor) = Inr (bql_rank us z)"
    by (simp add: eval_rank_func x znav)
  have b1: "bij_betw \<zeta> (set us) Z"
    using inj_zeta by (simp add: bij_betw_def Z_def)
  have b2: "bij_betw (\<lambda>a. card {y \<in> Z. y < a}) Z {0..<length us}"
    using card_below_bij [OF finZ] by (simp only: cardZ)
  have "bij_betw (Suc \<circ> ((\<lambda>a. card {y \<in> Z. y < a}) \<circ> \<zeta>)) (set us) {1..length us}"
    by (rule bij_betw_trans [OF bij_betw_trans [OF b1 b2] bij_betw_Suc_upt])
  then have bij: "bij_betw \<rho> (set us) {1..length us}"
    by (simp add: \<rho>_def comp_def)
  have mono: "\<zeta> i < \<zeta> j \<longleftrightarrow> \<rho> i < \<rho> j" if i: "i \<in> set us" and j: "j \<in> set us" for i j
  proof
    assume "\<zeta> i < \<zeta> j"
    moreover have "\<zeta> i \<in> Z" using i by (simp add: Z_def)
    ultimately show "\<rho> i < \<rho> j"
      using card_below_strict_mono [OF finZ] by (simp add: \<rho>_def)
  next
    assume lt: "\<rho> i < \<rho> j"
    show "\<zeta> i < \<zeta> j"
    proof (rule ccontr)
      assume "\<not> \<zeta> i < \<zeta> j"
      then consider "\<zeta> j = \<zeta> i" | "\<zeta> j < \<zeta> i" by linarith
      then show False
      proof cases
        case 1
        with lt show False by (simp add: \<rho>_def)
      next
        case 2
        moreover have "\<zeta> j \<in> Z" using j by (simp add: Z_def)
        ultimately have "\<rho> j < \<rho> i"
          using card_below_strict_mono [OF finZ] by (simp add: \<rho>_def)
        with lt show False by simp
      qed
    qed
  qed
  have first: "\<rho> i = 1 \<longleftrightarrow> (\<forall>j\<in>set us. \<zeta> i \<le> \<zeta> j)" if i: "i \<in> set us" for i
  proof -
    have "\<rho> i = 1 \<longleftrightarrow> {y \<in> Z. y < \<zeta> i} = {}"
      using finZ by (simp add: \<rho>_def)
    also have "\<dots> \<longleftrightarrow> (\<forall>j\<in>set us. \<zeta> i \<le> \<zeta> j)"
      by (auto simp: Z_def not_less)
    finally show ?thesis .
  qed
  show ?thesis
    apply (rule exI [of _ z], rule exI [of _ "bql_rank us z"], rule exI [of _ \<zeta>], rule exI [of _ \<rho>])
    apply (intro conjI e1 zz e2 rk bij)
    using mono first by blast+
qed

theorem rank_is_bijection_witness:
  "example_members \<noteq> [] \<and> distinct example_members \<and>
   (\<exists>x. eval example example_members bq_avg_roe_2y = Inr x \<and>
      (\<forall>i\<in>set example_members. \<exists>v. x i = Some v) \<and> inj_on x (set example_members) \<and>
      (\<exists>z r \<zeta> \<rho>.
           eval example example_members (Znav (Group bq_avg_roe_2y)) = Inr z \<and>
           (\<forall>i\<in>set example_members. z i = Some (\<zeta> i)) \<and>
           eval example example_members (rank_func bq_avg_roe_2y) = Inr r \<and>
           (\<forall>i\<in>set example_members. r i = Some (real (\<rho> i))) \<and>
           bij_betw \<rho> (set example_members) {1..length example_members} \<and>
           (\<forall>i\<in>set example_members. \<forall>j\<in>set example_members. \<zeta> i < \<zeta> j \<longleftrightarrow> \<rho> i < \<rho> j) \<and>
           (\<forall>i\<in>set example_members. \<rho> i = 1 \<longleftrightarrow> (\<forall>j\<in>set example_members. \<zeta> i \<le> \<zeta> j))))"
proof -
  have ne: "example_members \<noteq> []" and d: "distinct example_members"
    by (simp_all add: example_members_def)
  obtain x where x: "eval example example_members bq_avg_roe_2y = Inr x"
    and m: "map x example_members = [Some 1, Some 3, Some 4, Some 5, Some 7]"
    using example_roe_values by (elim exE conjE)
  have v: "x ''A'' = Some 1" "x ''B'' = Some 3" "x ''C'' = Some 4" "x ''D'' = Some 5" "x ''E'' = Some 7"
    using m by (simp_all add: example_members_def)
  have pres: "\<forall>i\<in>set example_members. \<exists>v. x i = Some v"
    by (simp add: example_members_def v)
  have inj: "inj_on x (set example_members)"
    by (simp add: example_members_def v)
  show ?thesis
    apply (rule conjI [OF ne], rule conjI [OF d], rule exI [of _ x])
    apply (rule conjI [OF x], rule conjI [OF pres], rule conjI [OF inj])
    apply (rule rank_is_bijection [OF ne d x pres inj])
    done
qed

text \<open>
  C5. For a universe in which a factor has the same value for all identifiers, so that
  the variance is zero, the rank function raises no error and every identifier gets a
  rank (the tied rank 1).
\<close>

theorem identical_values_get_rank:
  assumes ne: "us \<noteq> []" and x: "eval svc us factor = Inr x" and c: "\<forall>i\<in>set us. x i = Some c"
  shows "stdev (present (map x us)) = 0 \<and>
         (\<exists>r. eval svc us (rank_func factor) = Inr r \<and> (\<forall>i\<in>set us. r i = Some 1))"
proof -
  have p: "present (map x us) = map (\<lambda>_. c) us"
    by (rule present_map_Some [OF c])
  have s: "stdev (present (map x us)) = 0"
    by (simp only: p stdev_const [OF ne])
  let ?z = "\<lambda>i. case x i of None \<Rightarrow> None | Some v \<Rightarrow> Some (0::real)"
  have z: "bql_znav us x = Inr ?z"
    using ne by (simp add: bql_znav_def Let_def s cong: option.case_cong)
  have "\<forall>i\<in>set us. ?z i = Some 0" using c by simp
  then have pz: "present (map ?z us) = map (\<lambda>_. 0) us"
    by (rule present_map_Some)
  have "\<forall>i\<in>set us. bql_rank us ?z i = Some 1"
    unfolding bql_rank_def pz using c by simp
  moreover have "eval svc us (rank_func factor) = Inr (bql_rank us ?z)"
    by (simp add: eval_rank_func x z)
  ultimately show ?thesis using s by blast
qed

theorem identical_values_get_rank_witness:
  "example_members \<noteq> [] \<and>
   (\<exists>x. eval example_flat example_members bq_px_to_book = Inr x \<and>
      (\<forall>i\<in>set example_members. x i = Some 1) \<and>
      stdev (present (map x example_members)) = 0 \<and>
      (\<exists>r. eval example_flat example_members (rank_func bq_px_to_book) = Inr r \<and>
         (\<forall>i\<in>set example_members. r i = Some 1)))"
proof -
  have ne: "example_members \<noteq> []"
    by (simp add: example_members_def)
  obtain x where x: "eval example_flat example_members bq_px_to_book = Inr x"
    and c: "\<forall>i\<in>set example_members. x i = Some 1"
    by (simp add: eval_px_to_book example_flat_def bql_div_def)
  show ?thesis
    apply (rule conjI [OF ne], rule exI [of _ x])
    apply (rule conjI [OF x], rule conjI [OF c])
    apply (rule identical_values_get_rank [OF ne x c])
    done
qed

end
